theory Spec2Isabelle
  imports Complex_Main
begin

section \<open>Host data: file identifiers\<close>

text \<open>
  The extension receives its files from the editor host as \<open>vscode.Uri\<close> objects. The
  only component the extension reads is \<open>fsPath\<close>; the other components are kept so that
  two identifiers can share a path and still be different values.
\<close>

record uri =
  scheme :: string
  fsPath :: string

section \<open>Random Selector: \<open>getRandomFile\<close>\<close>

text \<open>
  Reading \<open>xs[i]\<close> on a JavaScript array with an integral index: \<open>undefined\<close> outside
  \<open>0 .. length - 1\<close>.
\<close>

definition arrayAt :: "'a list \<Rightarrow> int \<Rightarrow> 'a option" where
  "arrayAt xs i = (if 0 \<le> i \<and> i < int (length xs) then Some (xs ! nat i) else None)"

text \<open>
  Line 23: the candidate pool. An absent \<open>exclude\<close> argument is \<open>None\<close>; a present one is
  an object and hence truthy, whatever its path.
\<close>

definition available :: "uri list \<Rightarrow> uri option \<Rightarrow> uri list" where
  "available files exclude =
     (case exclude of
        Some e \<Rightarrow> filter (\<lambda>f. fsPath f \<noteq> fsPath e) files
      | None \<Rightarrow> files)"

text \<open>
  Lines 22-29. The value of \<open>Math.random()\<close> is the argument \<open>rnd\<close>; the host promises
  \<open>0 \<le> rnd < 1\<close>. Numbers are taken as reals.
\<close>

definition getRandomFile :: "uri list \<Rightarrow> uri option \<Rightarrow> real \<Rightarrow> uri option" where
  "getRandomFile files exclude rnd =
     (let avail = available files exclude in
      if length avail = 0 then None
      else
        let randomIndex = \<lfloor>rnd * real (length avail)\<rfloor>
        in arrayAt avail randomIndex)"

section \<open>Host data: positions, documents and editors\<close>

text \<open>
  The editor host throws on a negative line or character when a position is built, and on
  a line outside the document when a line is read. These are the only failures the code
  under study can provoke by itself.
\<close>

datatype error = IllegalArgument

record position =
  line :: int
  character :: int

definition mkPosition :: "int \<Rightarrow> int \<Rightarrow> error + position" where
  "mkPosition l c =
     (if l < 0 \<or> c < 0 then Inl IllegalArgument else Inr \<lparr>line = l, character = c\<rparr>)"

text \<open>A range orders its two ends; a selection keeps anchor and active as given.\<close>

definition isBefore :: "position \<Rightarrow> position \<Rightarrow> bool" where
  "isBefore p q = (line p < line q \<or> (line p = line q \<and> character p < character q))"

definition mkRange :: "position \<Rightarrow> position \<Rightarrow> position \<times> position" where
  "mkRange p q = (if isBefore q p then (q, p) else (p, q))"

record textdocument =
  docLines :: "string list"
  eol :: string

definition lineAt :: "textdocument \<Rightarrow> int \<Rightarrow> error + string" where
  "lineAt doc l =
     (if 0 \<le> l \<and> l < int (length (docLines doc)) then Inr (docLines doc ! nat l)
      else Inl IllegalArgument)"

text \<open>
  \<open>doc.getText(range)\<close> of the host: the range is first adjusted to lie inside the
  document, then the text between its ends is returned, lines joined by the document's
  end-of-line sequence.
\<close>

definition validatePosition :: "textdocument \<Rightarrow> position \<Rightarrow> position" where
  "validatePosition doc p =
     (let n = int (length (docLines doc)) in
      if n = 0 then \<lparr>line = 0, character = 0\<rparr>
      else if n \<le> line p then
        \<lparr>line = n - 1, character = int (length (docLines doc ! nat (n - 1)))\<rparr>
      else if line p < 0 then \<lparr>line = 0, character = 0\<rparr>
      else \<lparr>line = line p,
            character = max 0 (min (character p) (int (length (docLines doc ! nat (line p)))))\<rparr>)"

fun joinLines :: "string \<Rightarrow> string list \<Rightarrow> string" where
  "joinLines sep [] = []"
| "joinLines sep [l] = l"
| "joinLines sep (l # ls) = l @ sep @ joinLines sep ls"

definition getText :: "textdocument \<Rightarrow> position \<times> position \<Rightarrow> string" where
  "getText doc r =
     (let s = validatePosition doc (fst r);
          e = validatePosition doc (snd r);
          ls = take (nat (line e - line s + 1)) (drop (nat (line s)) (docLines doc))
      in if ls = [] then []
         else if line s = line e then
           take (nat (character e - character s)) (drop (nat (character s)) (hd ls))
         else
           joinLines (eol doc)
             (drop (nat (character s)) (hd ls) # butlast (tl ls)
                @ [take (nat (character e)) (last ls)]))"

text \<open>
  An editor: its document, its selection (anchor, active) and the range last passed to
  \<open>revealRange\<close>.
\<close>

record texteditor =
  document :: textdocument
  selection :: "position \<times> position"
  revealed :: "(position \<times> position) option"

section \<open>Random Selector: \<open>selectRandomLines\<close> and \<open>deselectLines\<close>\<close>

text \<open>
  Lines 36-54. \<open>lineCount\<close> is the window size (the callers pass 3, the default, and 5);
  \<open>rnd\<close> is the value of the one \<open>Math.random()\<close> call. The result is the returned text
  with the editor as the call leaves it, or the host's exception.
\<close>

definition selectRandomLines :: "texteditor \<Rightarrow> int \<Rightarrow> real \<Rightarrow> error + (string \<times> texteditor)" where
  "selectRandomLines editor lineCount rnd =
     (let doc = document editor;
          totalLines = int (length (docLines doc))
      in if totalLines = 0 then Inr ([], editor)
         else
           let maxStartLine = max 0 (totalLines - lineCount);
               randomLine = \<lfloor>rnd * real_of_int (maxStartLine + 1)\<rfloor>;
               endLine = min (randomLine + lineCount - 1) (totalLines - 1)
           in case mkPosition randomLine 0 of
                Inl err \<Rightarrow> Inl err
              | Inr startPos \<Rightarrow>
                  (case lineAt doc endLine of
                     Inl err \<Rightarrow> Inl err
                   | Inr endText \<Rightarrow>
                       (case mkPosition endLine (int (length endText)) of
                          Inl err \<Rightarrow> Inl err
                        | Inr endPos \<Rightarrow>
                            Inr (getText doc (mkRange startPos endPos),
                                 editor\<lparr>selection := (startPos, endPos),
                                        revealed := Some (mkRange startPos endPos)\<rparr>))))"

text \<open>Lines 56-59: the selection collapses to its active end.\<close>

definition deselectLines :: "texteditor \<Rightarrow> texteditor" where
  "deselectLines editor =
     (let pos = snd (selection editor) in editor\<lparr>selection := (pos, pos)\<rparr>)"

section \<open>File discovery\<close>

text \<open>
  Lines 9-20. \<open>found\<close> is what the host's \<open>findFiles\<close> returned. Paths are byte strings
  here, and \<open>toLowerCase\<close> acts on the ASCII letters.
\<close>

definition toLowerCase :: "string \<Rightarrow> string" where
  "toLowerCase s =
     map (\<lambda>c. case map_of (zip ''ABCDEFGHIJKLMNOPQRSTUVWXYZ'' ''abcdefghijklmnopqrstuvwxyz'') c of
                Some l \<Rightarrow> l
              | None \<Rightarrow> c) s"

definition endsWith :: "string \<Rightarrow> string \<Rightarrow> bool" where
  "endsWith s suf = (length suf \<le> length s \<and> drop (length s - length suf) s = suf)"

definition getWorkspaceFiles :: "uri list \<Rightarrow> uri list" where
  "getWorkspaceFiles found =
     filter (\<lambda>file.
        let path = toLowerCase (fsPath file) in
        endsWith path ''.ts'' \<or> endsWith path ''.js'' \<or> endsWith path ''.json'' \<or>
        endsWith path ''.md'' \<or> endsWith path ''.txt'' \<or> endsWith path ''.html'' \<or>
        endsWith path ''.css'' \<or> endsWith path ''.tsx'' \<or> endsWith path ''.jsx'') found"

section \<open>Run Controller\<close>

text \<open>
  What the two commands can change: the module's flag \<open>isRunning\<close>, the messages shown
  to the user, the file discoveries begun, and the calls of \<open>runLoop\<close> with the file list
  each received.
\<close>

datatype notification = Information string | Warning string

record controller =
  isRunning :: bool
  shown :: "notification list"
  discoveries :: nat
  launched :: "uri list list"

definition showInformationMessage :: "string \<Rightarrow> controller \<Rightarrow> controller" where
  "showInformationMessage msg c = c\<lparr>shown := shown c @ [Information msg]\<rparr>"

definition showWarningMessage :: "string \<Rightarrow> controller \<Rightarrow> controller" where
  "showWarningMessage msg c = c\<lparr>shown := shown c @ [Warning msg]\<rparr>"

text \<open>
  Lines 160-175. The handler is suspended once, at \<open>await getWorkspaceFiles()\<close>;
  \<open>meanwhile\<close> is what other handlers did to the controller during that suspension and
  \<open>found\<close> what the host's search returned. \<open>runLoop(files)\<close> is called without \<open>await\<close>:
  the handler records the call and returns.
\<close>

definition startCommand :: "controller \<Rightarrow> (controller \<Rightarrow> controller) \<Rightarrow> uri list \<Rightarrow> controller" where
  \<open>startCommand c meanwhile found =
     (if isRunning c then showInformationMessage ''Budgie is already running!'' c
      else
        let c1 = meanwhile (c\<lparr>discoveries := discoveries c + 1\<rparr>);
            files = getWorkspaceFiles found
        in if length files = 0 then showWarningMessage ''No files found in workspace'' c1
           else
             let c2 = c1\<lparr>isRunning := True\<rparr>;
                 c3 = showInformationMessage ''Budgie started! Use "Budgie: Stop" to stop.'' c2
             in c3\<lparr>launched := launched c3 @ [files]\<rparr>)\<close>

text \<open>Lines 177-184.\<close>

definition stopCommand :: "controller \<Rightarrow> controller" where
  "stopCommand c =
     (if \<not> isRunning c then showInformationMessage ''Budgie is not running.'' c
      else showInformationMessage ''Budgie stopped!'' (c\<lparr>isRunning := False\<rparr>))"

text \<open>Lines 189-191.\<close>

definition deactivate :: "controller \<Rightarrow> controller" where
  "deactivate c = c\<lparr>isRunning := False\<rparr>"

section \<open>Activity Step Sequencer\<close>

text \<open>
  \<open>runLoop\<close> is an async function: it runs until it awaits a host operation or a timer,
  and is resumed later by the host. While it is suspended other handlers run (the stop
  command, a further start command, \<open>deactivate\<close>), so on resumption the flag
  \<open>isRunning\<close> and the clock may have changed. A \<open>resume\<close> is what the loop finds when one
  suspension ends. Awaiting an async function of the extension itself (\<open>openFile\<close>,
  \<open>scrollUpAndDown\<close>) adds no suspension of its own beyond those inside the callee.
\<close>

record resume =
  flagAfter :: bool
  clockAfter :: int

text \<open>
  What the loop does, as seen from outside: reads of the flag (the checkpoints), host
  calls, pauses, and the calls of the editor helpers with the editor as they leave it.
\<close>

datatype action =
    ReadIsRunning
  | OpenTextDocument uri
  | ShowTextDocument uri
  | SelectRandomLines texteditor
  | DeselectLines texteditor
  | Sleep int
  | ClipboardWriteText string
  | OpenUntitledDocument
  | ShowUntitledDocument
  | EditInsert position string
  | ExecuteCommand string
  | RevealRange position position

text \<open>
  How a run of the loop ends: the flag was found clear (\<open>Halted\<close>), a file pick returned
  \<open>undefined\<close> (\<open>Exhausted\<close>), the host threw (\<open>Threw\<close>), or the loop is still suspended
  when the recorded resumptions run out (\<open>Suspended\<close>).
\<close>

datatype outcome = Halted | Exhausted | Threw error | Suspended

text \<open>
  The loop's view of the world: the flag and the clock as of now, the number of
  \<open>Math.random()\<close> calls made, the resumptions still to come, and the actions performed
  so far, each with the value the flag had when it was performed.
\<close>

record loop_state =
  running :: bool
  clock :: int
  draws :: nat
  pending :: "resume list"
  trace :: "(bool \<times> action) list"

text \<open>The host as the loop uses it: the editor shown for a file, and the random source.\<close>

record host =
  editorOf :: "uri \<Rightarrow> texteditor"
  mathRandom :: "nat \<Rightarrow> real"

datatype 'a step = Continue 'a loop_state | Stop outcome loop_state

definition andThen :: "(loop_state \<Rightarrow> 'a step) \<Rightarrow> ('a \<Rightarrow> loop_state \<Rightarrow> 'b step) \<Rightarrow> loop_state \<Rightarrow> 'b step" where
  "andThen m k s = (case m s of Continue x s' \<Rightarrow> k x s' | Stop out s' \<Rightarrow> Stop out s')"

definition perform :: "action \<Rightarrow> loop_state \<Rightarrow> loop_state" where
  "perform a s = s\<lparr>trace := trace s @ [(running s, a)]\<rparr>"

definition act :: "action \<Rightarrow> loop_state \<Rightarrow> unit step" where
  "act a s = Continue () (perform a s)"

text \<open>\<open>await\<close> of a host operation or a timer: the operation is issued, then the loop is suspended.\<close>

definition await :: "action \<Rightarrow> loop_state \<Rightarrow> unit step" where
  "await a s =
     (let s1 = perform a s in
      case pending s1 of
        [] \<Rightarrow> Stop Suspended s1
      | r # rs \<Rightarrow> Continue () (s1\<lparr>running := flagAfter r, clock := clockAfter r, pending := rs\<rparr>))"

text \<open>The checkpoint \<open>if (!isRunning) break;\<close>.\<close>

definition breakUnlessRunning :: "loop_state \<Rightarrow> unit step" where
  "breakUnlessRunning s =
     (let s1 = perform ReadIsRunning s in
      if \<not> running s1 then Stop Halted s1 else Continue () s1)"

text \<open>
  \<open>getRandomFile\<close> and \<open>selectRandomLines\<close> as the loop calls them: the next value of the
  random source is consumed when the callee reaches its \<open>Math.random()\<close>.
\<close>

definition chooseFile :: "host \<Rightarrow> uri list \<Rightarrow> uri option \<Rightarrow> loop_state \<Rightarrow> uri option step" where
  "chooseFile h files exclude s =
     Continue (getRandomFile files exclude (mathRandom h (draws s)))
       (if length (available files exclude) = 0 then s else s\<lparr>draws := Suc (draws s)\<rparr>)"

definition selectLines :: "host \<Rightarrow> texteditor \<Rightarrow> int \<Rightarrow> loop_state \<Rightarrow> (string \<times> texteditor) step" where
  "selectLines h editor lineCount s =
     (let s1 = (if length (docLines (document editor)) = 0 then s else s\<lparr>draws := Suc (draws s)\<rparr>) in
      case selectRandomLines editor lineCount (mathRandom h (draws s)) of
        Inl err \<Rightarrow> Stop (Threw err) s1
      | Inr res \<Rightarrow> Continue res (perform (SelectRandomLines (snd res)) s1))"

text \<open>Lines 31-34.\<close>

definition openFile :: "host \<Rightarrow> uri \<Rightarrow> loop_state \<Rightarrow> texteditor step" where
  "openFile h file =
     andThen (await (OpenTextDocument file)) (\<lambda>_.
     andThen (await (ShowTextDocument file)) (\<lambda>_.
     Continue (editorOf h file)))"

text \<open>Lines 72-84: one move of the tracked line.\<close>

definition advance :: "int \<Rightarrow> int \<times> bool \<Rightarrow> int \<times> bool" where
  "advance lineCount cur =
     (if snd cur then
        (let currentLine = fst cur + 10 in
         if lineCount - 1 \<le> currentLine then (lineCount - 1, False) else (currentLine, True))
      else
        (let currentLine = fst cur - 10 in
         if currentLine \<le> 0 then (0, True) else (currentLine, False)))"

text \<open>
  Lines 68-87: the loop of \<open>scrollUpAndDown\<close>. The flag is read only when the deadline
  has not passed (\<open>&&\<close>).
\<close>

function scrollLoop :: "int \<Rightarrow> int \<Rightarrow> int \<times> bool \<Rightarrow> loop_state \<Rightarrow> unit step" where
  "scrollLoop lineCount endTime cur s =
     (if \<not> clock s < endTime then Continue () s
      else
        let s1 = perform ReadIsRunning s in
        if \<not> running s1 then Continue () s1
        else
          (case mkPosition (fst cur) 0 of
             Inl err \<Rightarrow> Stop (Threw err) s1
           | Inr pos \<Rightarrow>
               (case await (Sleep 200) (perform (RevealRange pos pos) s1) of
                  Stop out s3 \<Rightarrow> Stop out s3
                | Continue u s3 \<Rightarrow> scrollLoop lineCount endTime (advance lineCount cur) s3)))"
  by pat_completeness auto
termination
  by (relation "measure (\<lambda>(lineCount, endTime, cur, s). length (pending s))")
     (auto simp: await_def perform_def Let_def split: list.splits)

declare scrollLoop.simps [simp del]

text \<open>Lines 61-67.\<close>

definition scrollUpAndDown :: "texteditor \<Rightarrow> int \<Rightarrow> loop_state \<Rightarrow> unit step" where
  "scrollUpAndDown editor durationMs s =
     (let lineCount = int (length (docLines (document editor)));
          endTime = clock s + durationMs
      in scrollLoop lineCount endTime (0, True) s)"

text \<open>Lines 93-103: step 1. The result is \<open>file1\<close>.\<close>

definition step1 :: "host \<Rightarrow> uri list \<Rightarrow> loop_state \<Rightarrow> uri step" where
  "step1 h files =
     andThen (chooseFile h files None) (\<lambda>picked.
       case picked of
         None \<Rightarrow> Stop Exhausted
       | Some file1 \<Rightarrow>
           andThen breakUnlessRunning (\<lambda>_.
           andThen (openFile h file1) (\<lambda>editor.
           andThen (selectLines h editor 3) (\<lambda>sel.
           andThen (await (Sleep 2000)) (\<lambda>_.
           andThen breakUnlessRunning (\<lambda>_.
           andThen (act (DeselectLines (deselectLines (snd sel)))) (\<lambda>_.
           Continue file1)))))))"

text \<open>Lines 106-114: step 2.\<close>

definition step2 :: "host \<Rightarrow> uri list \<Rightarrow> uri \<Rightarrow> loop_state \<Rightarrow> unit step" where
  "step2 h files file1 =
     andThen (chooseFile h files (Some file1)) (\<lambda>picked.
       let file2 = (case picked of Some f \<Rightarrow> f | None \<Rightarrow> file1) in
       andThen breakUnlessRunning (\<lambda>_.
       andThen (openFile h file2) (\<lambda>_.
       andThen (await (Sleep 3000)) (\<lambda>_.
       breakUnlessRunning))))"

text \<open>Lines 117-127: step 3. The result is \<open>copiedText\<close>.\<close>

definition step3 :: "host \<Rightarrow> uri list \<Rightarrow> loop_state \<Rightarrow> string step" where
  "step3 h files =
     andThen (chooseFile h files None) (\<lambda>picked.
       case picked of
         None \<Rightarrow> Stop Exhausted
       | Some file3 \<Rightarrow>
           andThen breakUnlessRunning (\<lambda>_.
           andThen (openFile h file3) (\<lambda>editor.
           andThen (selectLines h editor 5) (\<lambda>sel.
           andThen (await (ClipboardWriteText (fst sel))) (\<lambda>_.
           andThen (await (Sleep 500)) (\<lambda>_.
           andThen breakUnlessRunning (\<lambda>_.
           Continue (fst sel))))))))"

text \<open>Lines 130-138: step 4.\<close>

definition step4 :: "string \<Rightarrow> loop_state \<Rightarrow> unit step" where
  "step4 copiedText =
     andThen (await OpenUntitledDocument) (\<lambda>_.
     andThen (await ShowUntitledDocument) (\<lambda>_.
     andThen (await (EditInsert \<lparr>line = 0, character = 0\<rparr> copiedText)) (\<lambda>_.
     andThen (await (Sleep 6000)) (\<lambda>_.
     breakUnlessRunning))))"

text \<open>Lines 141-145: step 5.\<close>

definition step5 :: "loop_state \<Rightarrow> unit step" where
  "step5 =
     andThen (await (ExecuteCommand ''workbench.action.revertAndCloseActiveEditor'')) (\<lambda>_.
     andThen (await (Sleep 500)) (\<lambda>_.
     breakUnlessRunning))"

text \<open>Lines 148-153: step 6.\<close>

definition step6 :: "host \<Rightarrow> uri list \<Rightarrow> loop_state \<Rightarrow> unit step" where
  "step6 h files =
     andThen (chooseFile h files None) (\<lambda>picked.
       case picked of
         None \<Rightarrow> Stop Exhausted
       | Some file4 \<Rightarrow>
           andThen breakUnlessRunning (\<lambda>_.
           andThen (openFile h file4) (\<lambda>editor.
           scrollUpAndDown editor 5000)))"

text \<open>The body of the \<open>while\<close> loop of lines 91-154.\<close>

definition cycle :: "host \<Rightarrow> uri list \<Rightarrow> loop_state \<Rightarrow> unit step" where
  "cycle h files =
     andThen (step1 h files) (\<lambda>file1.
     andThen (step2 h files file1) (\<lambda>_.
     andThen (step3 h files) (\<lambda>copiedText.
     andThen (step4 copiedText) (\<lambda>_.
     andThen step5 (\<lambda>_.
     step6 h files)))))"

section \<open>Observing a run\<close>

text \<open>
  The lines passed to \<open>revealRange\<close> by the scroll animation, in order; the state a step
  ends in; whether a step ended by an exception.
\<close>

fun revealedLines :: "(bool \<times> action) list \<Rightarrow> int list" where
  "revealedLines [] = []"
| "revealedLines ((b, RevealRange p q) # es) = line p # revealedLines es"
| "revealedLines (e # es) = revealedLines es"

definition stateOf :: "'a step \<Rightarrow> loop_state" where
  "stateOf r = (case r of Continue x s \<Rightarrow> s | Stop out s \<Rightarrow> s)"

definition thrown :: "'a step \<Rightarrow> bool" where
  "thrown r = (case r of Continue x s \<Rightarrow> False | Stop out s \<Rightarrow> (case out of Threw err \<Rightarrow> True | _ \<Rightarrow> False))"

text \<open>
  A checkpoint that found the flag clear; a pause; the two properties of a trace that
  describe the checkpoints: an action right after a pause is a read of the flag, and from
  the first read that finds the flag clear on, the trace holds nothing but such reads.
\<close>

definition stoppedRead :: "bool \<times> action" where
  "stoppedRead = (False, ReadIsRunning)"

fun isSleep :: "action \<Rightarrow> bool" where
  "isSleep (Sleep ms) = True"
| "isSleep a = False"

definition pausesChecked :: "(bool \<times> action) list \<Rightarrow> bool" where
  "pausesChecked tr =
     list_all (\<lambda>pair. isSleep (snd (fst pair)) \<longrightarrow> snd (snd pair) = ReadIsRunning) (zip tr (tl tr))"

definition nothingAfterStop :: "(bool \<times> action) list \<Rightarrow> bool" where
  "nothingAfterStop tr = list_all (\<lambda>e. e = stoppedRead) (dropWhile (\<lambda>e. e \<noteq> stoppedRead) tr)"

section \<open>Reasoning about steps\<close>

text \<open>
  \<open>triple P m Q E\<close>: started in a state satisfying \<open>P\<close>, the step \<open>m\<close> either continues
  with a result and a state satisfying \<open>Q\<close>, or stops with an outcome and a state
  satisfying \<open>E\<close>.
\<close>

definition triple :: "(loop_state \<Rightarrow> bool) \<Rightarrow> (loop_state \<Rightarrow> 'a step) \<Rightarrow> ('a \<Rightarrow> loop_state \<Rightarrow> bool)
    \<Rightarrow> (outcome \<Rightarrow> loop_state \<Rightarrow> bool) \<Rightarrow> bool" where
  "triple P m Q E = (\<forall>s. P s \<longrightarrow> (case m s of Continue x s' \<Rightarrow> Q x s' | Stop out s' \<Rightarrow> E out s'))"

lemma tripleI:
  assumes "\<And>s x s'. P s \<Longrightarrow> m s = Continue x s' \<Longrightarrow> Q x s'"
    and "\<And>s out s'. P s \<Longrightarrow> m s = Stop out s' \<Longrightarrow> E out s'"
  shows "triple P m Q E"
  unfolding triple_def using assms by (auto split: step.splits)

lemma tripleD_Continue: "triple P m Q E \<Longrightarrow> P s \<Longrightarrow> m s = Continue x s' \<Longrightarrow> Q x s'"
  unfolding triple_def by (auto split: step.splits)

lemma tripleD_Stop: "triple P m Q E \<Longrightarrow> P s \<Longrightarrow> m s = Stop out s' \<Longrightarrow> E out s'"
  unfolding triple_def by (auto split: step.splits)

lemma triple_andThen:
  assumes "triple P m Q E" and "\<And>x. triple (Q x) (k x) R E"
  shows "triple P (andThen m k) R E"
proof (rule tripleI)
  fix s x s' assume P: "P s" and run: "andThen m k s = Continue x s'"
  then obtain y t where m: "m s = Continue y t" and k: "k y t = Continue x s'"
    by (auto simp: andThen_def split: step.splits)
  from tripleD_Continue [OF assms(1) P m] have "Q y t" .
  from tripleD_Continue [OF assms(2) this k] show "R x s'" .
next
  fix s out s' assume P: "P s" and run: "andThen m k s = Stop out s'"
  show "E out s'"
  proof (cases "m s")
    case (Continue y t)
    with run have k: "k y t = Stop out s'" by (simp add: andThen_def)
    from tripleD_Continue [OF assms(1) P Continue] have "Q y t" .
    from tripleD_Stop [OF assms(2) this k] show ?thesis .
  next
    case (Stop o' t)
    with run have "m s = Stop out s'" by (simp add: andThen_def)
    from tripleD_Stop [OF assms(1) P this] show ?thesis .
  qed
qed

lemma triple_Continue: "(\<And>s. P s \<Longrightarrow> Q x s) \<Longrightarrow> triple P (Continue x) Q E"
  by (rule tripleI) auto

lemma triple_Stop: "(\<And>s. P s \<Longrightarrow> E out s) \<Longrightarrow> triple P (Stop out) Q E"
  by (rule tripleI) auto

lemma triple_option:
  assumes "x = None \<Longrightarrow> triple P a Q E" and "\<And>y. x = Some y \<Longrightarrow> triple P (b y) Q E"
  shows "triple P (case x of None \<Rightarrow> a | Some y \<Rightarrow> b y) Q E"
  using assms by (cases x) simp_all

lemma triple_weaken:
  assumes "triple P' m Q' E'" and "\<And>s. P s \<Longrightarrow> P' s" and "\<And>x s. Q' x s \<Longrightarrow> Q x s"
    and "\<And>out s. E' out s \<Longrightarrow> E out s"
  shows "triple P m Q E"
proof (rule tripleI)
  fix s x s' assume "P s" "m s = Continue x s'"
  with assms(2) tripleD_Continue [OF assms(1)] assms(3) show "Q x s'" by blast
next
  fix s out s' assume "P s" "m s = Stop out s'"
  with assms(2) tripleD_Stop [OF assms(1)] assms(4) show "E out s'" by blast
qed

subsection \<open>Every cycle uses up a resumption\<close>

abbreviation below :: "nat \<Rightarrow> loop_state \<Rightarrow> bool" where
  "below n s \<equiv> length (pending s) < n"

lemma act_pending: "triple (below n) (act a) (\<lambda>_. below n) (\<lambda>_ _. True)"
  by (rule tripleI) (auto simp: act_def perform_def)

lemma await_pending: "triple (below (Suc n)) (await a) (\<lambda>_. below n) (\<lambda>_ _. True)"
  by (rule tripleI) (auto simp: await_def perform_def Let_def split: list.splits)

lemma await_pending_weak: "triple (below n) (await a) (\<lambda>_. below n) (\<lambda>_ _. True)"
  by (rule tripleI) (auto simp: await_def perform_def Let_def split: list.splits)

lemma breakUnlessRunning_pending: "triple (below n) breakUnlessRunning (\<lambda>_. below n) (\<lambda>_ _. True)"
  by (rule tripleI) (auto simp: breakUnlessRunning_def perform_def Let_def split: if_splits)

lemma chooseFile_pending: "triple (below n) (chooseFile h files exclude) (\<lambda>_. below n) (\<lambda>_ _. True)"
  by (rule tripleI) (auto simp: chooseFile_def split: if_splits)

lemma selectLines_pending: "triple (below n) (selectLines h editor k) (\<lambda>_. below n) (\<lambda>_ _. True)"
  by (rule tripleI) (auto simp: selectLines_def perform_def Let_def split: if_splits sum.splits)

lemma openFile_pending: "triple (below (Suc n)) (openFile h file) (\<lambda>_. below n) (\<lambda>_ _. True)"
  unfolding openFile_def
  by (rule triple_andThen [OF await_pending], rule triple_andThen [OF await_pending_weak],
      rule triple_Continue)

lemmas pending_base = act_pending await_pending_weak breakUnlessRunning_pending chooseFile_pending
  selectLines_pending

lemma openFile_pending_weak: "triple (below n) (openFile h file) (\<lambda>_. below n) (\<lambda>_ _. True)"
  unfolding openFile_def
  by (rule triple_andThen pending_base triple_Continue | assumption)+

lemma scrollLoop_pending: "triple (below n) (scrollLoop lineCount endTime cur) (\<lambda>_. below n) (\<lambda>_ _. True)"
proof -
  have "below n s \<Longrightarrow> scrollLoop lineCount endTime cur s = Continue x s' \<Longrightarrow> below n s'" for s x s'
  proof (induction lineCount endTime cur s rule: scrollLoop.induct)
    case (1 lineCount endTime cur s)
    note unfold = scrollLoop.simps [of lineCount endTime cur s]
    show ?case
    proof (cases "clock s < endTime \<and> running s")
      case False
      with "1.prems" show ?thesis
        by (auto simp: unfold perform_def Let_def split: if_splits)
    next
      case True
      with "1.prems"(2) obtain pos u s3 where
        pos: "mkPosition (fst cur) 0 = Inr pos"
        and aw: "await (Sleep 200) (perform (RevealRange pos pos) (perform ReadIsRunning s)) = Continue u s3"
        and rec: "scrollLoop lineCount endTime (advance lineCount cur) s3 = Continue x s'"
        by (auto simp: unfold Let_def perform_def split: sum.splits step.splits)
      from aw "1.prems"(1) have "below n s3"
        by (auto simp: await_def perform_def Let_def split: list.splits)
      from "1.IH" [OF _ refl _ pos aw this rec] True show ?thesis
        by (simp add: perform_def)
    qed
  qed
  then show ?thesis by (intro tripleI) auto
qed

lemma scrollUpAndDown_pending: "triple (below n) (scrollUpAndDown editor d) (\<lambda>_. below n) (\<lambda>_ _. True)"
  using scrollLoop_pending unfolding scrollUpAndDown_def triple_def Let_def by blast

lemmas pending_weak = pending_base openFile_pending_weak scrollUpAndDown_pending

lemma step1_pending: "triple (below (Suc n)) (step1 h files) (\<lambda>_. below n) (\<lambda>_ _. True)"
  unfolding step1_def
  apply (rule triple_andThen [OF chooseFile_pending])
  apply (rule triple_option)
   apply (rule triple_Stop, simp)
  apply (rule triple_andThen [OF breakUnlessRunning_pending])
  apply (rule triple_andThen [OF openFile_pending])
  apply (rule triple_andThen pending_weak triple_Continue | assumption)+
  done

lemma step2_pending: "triple (below n) (step2 h files file1) (\<lambda>_. below n) (\<lambda>_ _. True)"
  unfolding step2_def Let_def
  by (rule triple_andThen pending_weak triple_Continue | assumption)+

lemma step3_pending: "triple (below n) (step3 h files) (\<lambda>_. below n) (\<lambda>_ _. True)"
  unfolding step3_def
  by (rule triple_andThen pending_weak triple_Continue triple_option triple_Stop TrueI | assumption)+

lemma step4_pending: "triple (below n) (step4 copied) (\<lambda>_. below n) (\<lambda>_ _. True)"
  unfolding step4_def
  by (rule triple_andThen pending_weak triple_Continue | assumption)+

lemma step5_pending: "triple (below n) step5 (\<lambda>_. below n) (\<lambda>_ _. True)"
  unfolding step5_def
  by (rule triple_andThen pending_weak triple_Continue | assumption)+

lemma step6_pending: "triple (below n) (step6 h files) (\<lambda>_. below n) (\<lambda>_ _. True)"
  unfolding step6_def
  by (rule triple_andThen pending_weak triple_Continue triple_option triple_Stop TrueI | assumption)+

lemma cycle_pending: "triple (below (Suc n)) (cycle h files) (\<lambda>_. below n) (\<lambda>_ _. True)"
  unfolding cycle_def
  by (rule triple_andThen [OF step1_pending],
      (rule triple_andThen step2_pending step3_pending step4_pending step5_pending
      step6_pending)+)

lemma cycle_consumes:
  assumes "cycle h files s = Continue x s'"
  shows "length (pending s') < length (pending s)"
proof -
  have "below (Suc (length (pending s))) s" by simp
  from tripleD_Continue [OF cycle_pending this assms] show ?thesis .
qed

section \<open>Activity Step Sequencer: \<open>runLoop\<close>\<close>

text \<open>
  Lines 90-155. The \<open>while\<close> condition is a read of the flag; the loop ends when the flag
  is clear there, or when the body breaks, throws or stays suspended.
\<close>

function runLoop :: "host \<Rightarrow> uri list \<Rightarrow> loop_state \<Rightarrow> outcome \<times> loop_state" where
  "runLoop h files s =
     (let s1 = perform ReadIsRunning s in
      if \<not> running s1 then (Halted, s1)
      else
        (case cycle h files s1 of
           Stop out s2 \<Rightarrow> (out, s2)
         | Continue u s2 \<Rightarrow> runLoop h files s2))"
  by pat_completeness auto
termination
proof (relation "measure (\<lambda>(h, files, s). length (pending s))")
  show "wf (measure (\<lambda>(h, files, s). length (pending s)))" by simp
next
  fix h files s s1 u s2
  assume "s1 = perform ReadIsRunning s" and "cycle h files s1 = Continue u s2"
  then have "length (pending s2) < length (pending s)"
    using cycle_consumes [of h files s1 u s2] by (simp add: perform_def)
  then show "((h, files, s2), (h, files, s)) \<in> measure (\<lambda>(h, files, s). length (pending s))"
    by simp
qed

declare runLoop.simps [simp del]

section \<open>Properties of the Random Selector\<close>

lemma floor_random_bounds:
  fixes rnd :: real and n :: int
  assumes "0 \<le> rnd" "rnd < 1" "0 < n"
  shows "0 \<le> \<lfloor>rnd * of_int n\<rfloor>" and "\<lfloor>rnd * of_int n\<rfloor> < n"
proof -
  from assms show "0 \<le> \<lfloor>rnd * of_int n\<rfloor>" by simp
  from assms have "rnd * of_int n < of_int n" by simp
  then show "\<lfloor>rnd * of_int n\<rfloor> < n" by (simp add: floor_less_iff)
qed

lemma randomIndex_bounds:
  fixes rnd :: real and n :: nat
  assumes "0 \<le> rnd" "rnd < 1" "0 < n"
  shows "0 \<le> \<lfloor>rnd * real n\<rfloor>" and "\<lfloor>rnd * real n\<rfloor> < int n"
  using floor_random_bounds [of rnd "int n"] assms by simp_all

lemma getRandomFile_member:
  assumes "0 \<le> rnd" "rnd < 1" "available files exclude \<noteq> []"
  shows "\<exists>f \<in> set (available files exclude). getRandomFile files exclude rnd = Some f"
proof -
  let ?a = "available files exclude"
  let ?i = "\<lfloor>rnd * real (length ?a)\<rfloor>"
  from assms(3) have pos: "0 < length ?a" by simp
  have lo: "0 \<le> ?i" and hi: "?i < int (length ?a)"
    using randomIndex_bounds [OF assms(1,2) pos] by simp_all
  from lo hi have "nat ?i < length ?a" by linarith
  then have "?a ! nat ?i \<in> set ?a" by (rule nth_mem)
  moreover have "getRandomFile files exclude rnd = Some (?a ! nat ?i)"
    using lo hi pos by (simp add: getRandomFile_def arrayAt_def Let_def)
  ultimately show ?thesis by blast
qed

lemma getRandomFile_empty:
  "available files exclude = [] \<Longrightarrow> getRandomFile files exclude rnd = None"
  by (simp add: getRandomFile_def)

text \<open>
  Claim C1. For a file list \<open>F\<close> and an excluded file \<open>e\<close> that is an element of \<open>F\<close>
  (so \<open>F\<close> is not empty), and for every value \<open>Math.random()\<close> may yield,
  \<open>getRandomFile F e\<close> returns either a file of \<open>F\<close> whose path differs from the path of
  \<open>e\<close>, or \<open>undefined\<close>; and it returns \<open>undefined\<close> exactly when every element of \<open>F\<close> has
  the path of \<open>e\<close>.
\<close>

theorem getRandomFile_never_excluded:
  assumes "e \<in> set F" and "0 \<le> rnd" and "rnd < 1"
  shows "(case getRandomFile F (Some e) rnd of
            Some f \<Rightarrow> f \<in> set F \<and> fsPath f \<noteq> fsPath e
          | None \<Rightarrow> (\<forall>f \<in> set F. fsPath f = fsPath e))"
proof (cases "available F (Some e) = []")
  case True
  then have "\<forall>f \<in> set F. fsPath f = fsPath e"
    by (simp add: available_def filter_empty_conv)
  moreover from True have "getRandomFile F (Some e) rnd = None"
    by (rule getRandomFile_empty)
  ultimately show ?thesis by simp
next
  case False
  with assms(2,3) obtain f where mem: "f \<in> set (available F (Some e))"
    and res: "getRandomFile F (Some e) rnd = Some f"
    using getRandomFile_member by blast
  from mem have "f \<in> set F \<and> fsPath f \<noteq> fsPath e"
    by (simp add: available_def)
  with res show ?thesis by simp
qed

theorem getRandomFile_never_excluded_witness:
  "\<lparr>scheme = ''file'', fsPath = ''/a.ts''\<rparr>
     \<in> set [\<lparr>scheme = ''file'', fsPath = ''/a.ts''\<rparr>, \<lparr>scheme = ''file'', fsPath = ''/b.ts''\<rparr>]
   \<and> (0::real) \<le> 3 / 4 \<and> (3 / 4 :: real) < 1
   \<and> getRandomFile
        [\<lparr>scheme = ''file'', fsPath = ''/a.ts''\<rparr>, \<lparr>scheme = ''file'', fsPath = ''/b.ts''\<rparr>]
        (Some \<lparr>scheme = ''file'', fsPath = ''/a.ts''\<rparr>) (3 / 4)
       = Some \<lparr>scheme = ''file'', fsPath = ''/b.ts''\<rparr>"
  using getRandomFile_never_excluded
    [of "\<lparr>scheme = ''file'', fsPath = ''/a.ts''\<rparr>"
        "[\<lparr>scheme = ''file'', fsPath = ''/a.ts''\<rparr>, \<lparr>scheme = ''file'', fsPath = ''/b.ts''\<rparr>]"
        "3 / 4"]
  by (simp add: getRandomFile_def available_def arrayAt_def)

text \<open>
  Claim C2, as stated: with an exclude argument at most one item leaves the pool, so the
  pool has at least \<open>length files - 1\<close> items for every list. It fails when two items of
  the list share the excluded path: the filter of line 23 drops both.
\<close>

theorem available_at_most_one_counterexample:
  "\<not> (length [\<lparr>scheme = ''file'', fsPath = ''/a.ts''\<rparr>, \<lparr>scheme = ''vscode-vfs'', fsPath = ''/a.ts''\<rparr>] - 1
        \<le> length (available
              [\<lparr>scheme = ''file'', fsPath = ''/a.ts''\<rparr>, \<lparr>scheme = ''vscode-vfs'', fsPath = ''/a.ts''\<rparr>]
              (Some \<lparr>scheme = ''file'', fsPath = ''/a.ts''\<rparr>)))"
  by (simp add: available_def)

lemma filter_same_path_le_one:
  "distinct (map fsPath files) \<Longrightarrow> length (filter (\<lambda>f. fsPath f = p) files) \<le> 1"
proof (induction files)
  case Nil
  then show ?case by simp
next
  case (Cons f fs)
  show ?case
  proof (cases "fsPath f = p")
    case True
    with Cons.prems have "\<forall>g \<in> set fs. fsPath g \<noteq> p" by (auto simp: image_iff)
    then have "filter (\<lambda>f. fsPath f = p) fs = []" by (simp add: filter_empty_conv)
    with True show ?thesis by simp
  next
    case False
    with Cons show ?thesis by simp
  qed
qed

lemma length_available_exclude:
  "length (available files (Some e)) + length (filter (\<lambda>f. fsPath f = fsPath e) files)
     = length files"
  using sum_length_filter_compl [of "\<lambda>f. fsPath f = fsPath e" files]
  by (simp add: available_def)

text \<open>
  Claim C2, amended. With an exclude argument the pool is the list without every item
  whose path equals the excluded file's path: its length is the length of the list minus
  the number of such items. When the paths of the list are pairwise distinct, at most one
  item is removed and the pool has at least \<open>length files - 1\<close> items.
\<close>

theorem available_removes_every_match:
  "set (available files (Some e)) = {f \<in> set files. fsPath f \<noteq> fsPath e}
   \<and> length (available files (Some e))
       = length files - length (filter (\<lambda>f. fsPath f = fsPath e) files)
   \<and> (distinct (map fsPath files) \<longrightarrow> length files - 1 \<le> length (available files (Some e)))"
proof -
  have eq: "length (available files (Some e)) + length (filter (\<lambda>f. fsPath f = fsPath e) files)
     = length files" by (rule length_available_exclude)
  have "distinct (map fsPath files) \<Longrightarrow> length files - 1 \<le> length (available files (Some e))"
    using eq filter_same_path_le_one [of files "fsPath e"] by linarith
  moreover have "set (available files (Some e)) = {f \<in> set files. fsPath f \<noteq> fsPath e}"
    by (auto simp: available_def)
  ultimately show ?thesis using eq by linarith
qed


theorem available_removes_every_match_witness:
  "distinct (map fsPath [\<lparr>scheme = ''file'', fsPath = ''/a.ts''\<rparr>, \<lparr>scheme = ''file'', fsPath = ''/b.ts''\<rparr>])
   \<and> length (available [\<lparr>scheme = ''file'', fsPath = ''/a.ts''\<rparr>, \<lparr>scheme = ''file'', fsPath = ''/b.ts''\<rparr>]
        (Some \<lparr>scheme = ''file'', fsPath = ''/a.ts''\<rparr>)) = 1"
  using available_removes_every_match
    [of "[\<lparr>scheme = ''file'', fsPath = ''/a.ts''\<rparr>, \<lparr>scheme = ''file'', fsPath = ''/b.ts''\<rparr>]"
        "\<lparr>scheme = ''file'', fsPath = ''/a.ts''\<rparr>"]
  by (simp add: available_def)


section \<open>Properties of \<open>selectRandomLines\<close>\<close>

lemma selectRandomLines_range:
  assumes "docLines (document editor) \<noteq> []" and "1 \<le> lineCount" and "0 \<le> rnd" and "rnd < 1"
  shows "\<exists>str startPos endPos.
           selectRandomLines editor lineCount rnd
             = Inr (str, editor\<lparr>selection := (startPos, endPos),
                                revealed := Some (startPos, endPos)\<rparr>)
           \<and> 0 \<le> line startPos \<and> line startPos \<le> line endPos
           \<and> line endPos \<le> int (length (docLines (document editor))) - 1
           \<and> line endPos - line startPos + 1 \<le> lineCount
           \<and> line startPos \<le> max 0 (int (length (docLines (document editor))) - lineCount)
           \<and> line endPos = min (line startPos + lineCount - 1) (int (length (docLines (document editor))) - 1)"
proof -
  define total where "total = int (length (docLines (document editor)))"
  define maxStart where "maxStart = max 0 (total - lineCount)"
  define start where "start = \<lfloor>rnd * real_of_int (maxStart + 1)\<rfloor>"
  define endL where "endL = min (start + lineCount - 1) (total - 1)"
  from assms(1) have total: "1 \<le> total" unfolding total_def by (cases "docLines (document editor)") simp_all
  have ms: "0 \<le> maxStart" "maxStart \<le> total - 1" using total assms(2) by (simp_all add: maxStart_def)
  have lo: "0 \<le> start" and hi: "start < maxStart + 1"
    unfolding start_def using floor_random_bounds [of rnd "maxStart + 1"] assms(3,4) ms(1)
    by simp_all
  have e1: "start \<le> endL" "endL \<le> total - 1" "0 \<le> endL" "endL - start + 1 \<le> lineCount"
    using lo hi ms assms(2) by (simp_all add: endL_def)
  define startPos where "startPos = \<lparr>line = start, character = 0\<rparr>"
  define endPos where "endPos = \<lparr>line = endL, character = int (length (docLines (document editor) ! nat endL))\<rparr>"
  have nb: "\<not> isBefore endPos startPos"
    using e1(1) by (auto simp: isBefore_def startPos_def endPos_def)
  have "selectRandomLines editor lineCount rnd
      = Inr (getText (document editor) (startPos, endPos),
             editor\<lparr>selection := (startPos, endPos), revealed := Some (startPos, endPos)\<rparr>)"
    using assms(1) total lo e1 nb
    unfolding selectRandomLines_def Let_def total_def [symmetric] maxStart_def [symmetric]
      start_def [symmetric] endL_def [symmetric]
    by (simp add: mkPosition_def lineAt_def mkRange_def total_def startPos_def endPos_def)
  moreover have "line startPos = start" "line endPos = endL"
    by (simp_all add: startPos_def endPos_def)
  ultimately show ?thesis
    using lo hi e1 unfolding total_def [symmetric] maxStart_def [symmetric]
    by (intro exI [of _ "getText (document editor) (startPos, endPos)"] exI [of _ startPos] exI [of _ endPos])
       (simp add: endL_def)
qed


text \<open>
  Claim C3. For a document with at least one line, a window size of at least 1 and every
  value \<open>Math.random()\<close> may yield, \<open>selectRandomLines\<close> returns normally and the
  selection it leaves satisfies \<open>0 \<le> startLine \<le> endLine \<le> totalLines - 1\<close> and
  \<open>endLine - startLine + 1 \<le> windowSize\<close>; the same range is the one revealed. For a
  document with no line the result is the empty string.
\<close>

theorem selectRandomLines_within_bounds:
  assumes "1 \<le> windowSize" and "0 \<le> rnd" and "rnd < 1"
  shows "(docLines (document editor) \<noteq> [] \<longrightarrow>
            (\<exists>str editor'.
               selectRandomLines editor windowSize rnd = Inr (str, editor')
               \<and> 0 \<le> line (fst (selection editor'))
               \<and> line (fst (selection editor')) \<le> line (snd (selection editor'))
               \<and> line (snd (selection editor')) \<le> int (length (docLines (document editor))) - 1
               \<and> line (snd (selection editor')) - line (fst (selection editor')) + 1 \<le> windowSize
               \<and> revealed editor' = Some (selection editor')))
       \<and> (docLines (document editor) = [] \<longrightarrow>
            selectRandomLines editor windowSize rnd = Inr ([], editor))"
proof (intro conjI impI)
  assume "docLines (document editor) \<noteq> []"
  from selectRandomLines_range [OF this assms]
  obtain str startPos endPos where
    res: "selectRandomLines editor windowSize rnd
            = Inr (str, editor\<lparr>selection := (startPos, endPos), revealed := Some (startPos, endPos)\<rparr>)"
    and bounds: "0 \<le> line startPos" "line startPos \<le> line endPos"
      "line endPos \<le> int (length (docLines (document editor))) - 1"
      "line endPos - line startPos + 1 \<le> windowSize"
    by blast
  let ?ed = "editor\<lparr>selection := (startPos, endPos), revealed := Some (startPos, endPos)\<rparr>"
  have "selection ?ed = (startPos, endPos)" "revealed ?ed = Some (selection ?ed)" by simp_all
  with res bounds show "\<exists>str editor'.
      selectRandomLines editor windowSize rnd = Inr (str, editor')
      \<and> 0 \<le> line (fst (selection editor'))
      \<and> line (fst (selection editor')) \<le> line (snd (selection editor'))
      \<and> line (snd (selection editor')) \<le> int (length (docLines (document editor))) - 1
      \<and> line (snd (selection editor')) - line (fst (selection editor')) + 1 \<le> windowSize
      \<and> revealed editor' = Some (selection editor')"
    by (intro exI [of _ str] exI [of _ ?ed]) simp
next
  assume "docLines (document editor) = []"
  then show "selectRandomLines editor windowSize rnd = Inr ([], editor)"
    by (simp add: selectRandomLines_def)
qed

theorem selectRandomLines_within_bounds_witness:
  "(1::int) \<le> 3 \<and> (0::real) \<le> 3 / 4 \<and> (3 / 4 :: real) < 1
   \<and> selectRandomLines
        \<lparr>document = \<lparr>docLines = [''ab'', ''cde'', ''f'', ''gh''], eol = [CHR 10]\<rparr>,
         selection = (\<lparr>line = 0, character = 0\<rparr>, \<lparr>line = 0, character = 0\<rparr>),
         revealed = None\<rparr> 3 (3 / 4)
       = Inr (''cde'' @ [CHR 10] @ ''f'' @ [CHR 10] @ ''gh'',
              \<lparr>document = \<lparr>docLines = [''ab'', ''cde'', ''f'', ''gh''], eol = [CHR 10]\<rparr>,
               selection = (\<lparr>line = 1, character = 0\<rparr>, \<lparr>line = 3, character = 2\<rparr>),
               revealed = Some (\<lparr>line = 1, character = 0\<rparr>, \<lparr>line = 3, character = 2\<rparr>)\<rparr>)
   \<and> selectRandomLines
        \<lparr>document = \<lparr>docLines = [], eol = [CHR 10]\<rparr>,
         selection = (\<lparr>line = 0, character = 0\<rparr>, \<lparr>line = 0, character = 0\<rparr>),
         revealed = None\<rparr> 3 (3 / 4)
       = Inr ([],
              \<lparr>document = \<lparr>docLines = [], eol = [CHR 10]\<rparr>,
               selection = (\<lparr>line = 0, character = 0\<rparr>, \<lparr>line = 0, character = 0\<rparr>),
               revealed = None\<rparr>)"
  using selectRandomLines_within_bounds
    [of 3 "3 / 4"
        "\<lparr>document = \<lparr>docLines = [''ab'', ''cde'', ''f'', ''gh''], eol = [CHR 10]\<rparr>,
          selection = (\<lparr>line = 0, character = 0\<rparr>, \<lparr>line = 0, character = 0\<rparr>),
          revealed = None\<rparr>"]
    selectRandomLines_within_bounds
    [of 3 "3 / 4"
        "\<lparr>document = \<lparr>docLines = [], eol = [CHR 10]\<rparr>,
          selection = (\<lparr>line = 0, character = 0\<rparr>, \<lparr>line = 0, character = 0\<rparr>),
          revealed = None\<rparr>"]
  by (simp add: selectRandomLines_def mkPosition_def lineAt_def mkRange_def isBefore_def
        getText_def validatePosition_def Let_def)

text \<open>
  Claim C4. For a document of two lines and a window of five, the selected range is
  exactly lines 0 to 1, whatever \<open>Math.random()\<close> yields.
\<close>

theorem selectRandomLines_two_lines_window_five:
  assumes "length (docLines (document editor)) = 2" and "0 \<le> rnd" and "rnd < 1"
  shows "\<exists>str editor'.
           selectRandomLines editor 5 rnd = Inr (str, editor')
           \<and> line (fst (selection editor')) = 0
           \<and> line (snd (selection editor')) = 1"
proof -
  from assms(1) have ne: "docLines (document editor) \<noteq> []" by auto
  from selectRandomLines_range [OF ne _ assms(2,3), of 5]
  obtain str startPos endPos where
    res: "selectRandomLines editor 5 rnd
            = Inr (str, editor\<lparr>selection := (startPos, endPos), revealed := Some (startPos, endPos)\<rparr>)"
    and lo: "0 \<le> line startPos"
    and hi: "line startPos \<le> max 0 (int (length (docLines (document editor))) - 5)"
    and en: "line endPos = min (line startPos + 5 - 1) (int (length (docLines (document editor))) - 1)"
    by auto
  from lo hi assms(1) have st: "line startPos = 0" by simp
  with en assms(1) have "line endPos = 1" by simp
  with st res show ?thesis by simp
qed

theorem selectRandomLines_two_lines_window_five_witness:
  "length (docLines (document
      \<lparr>document = \<lparr>docLines = [''ab'', ''cde''], eol = [CHR 10]\<rparr>,
       selection = (\<lparr>line = 0, character = 0\<rparr>, \<lparr>line = 0, character = 0\<rparr>),
       revealed = None\<rparr>)) = 2
   \<and> (0::real) \<le> 3 / 4 \<and> (3 / 4 :: real) < 1
   \<and> selectRandomLines
        \<lparr>document = \<lparr>docLines = [''ab'', ''cde''], eol = [CHR 10]\<rparr>,
         selection = (\<lparr>line = 0, character = 0\<rparr>, \<lparr>line = 0, character = 0\<rparr>),
         revealed = None\<rparr> 5 (3 / 4)
       = Inr (''ab'' @ [CHR 10] @ ''cde'',
              \<lparr>document = \<lparr>docLines = [''ab'', ''cde''], eol = [CHR 10]\<rparr>,
               selection = (\<lparr>line = 0, character = 0\<rparr>, \<lparr>line = 1, character = 3\<rparr>),
               revealed = Some (\<lparr>line = 0, character = 0\<rparr>, \<lparr>line = 1, character = 3\<rparr>)\<rparr>)"
  using selectRandomLines_two_lines_window_five
    [of "\<lparr>document = \<lparr>docLines = [''ab'', ''cde''], eol = [CHR 10]\<rparr>,
          selection = (\<lparr>line = 0, character = 0\<rparr>, \<lparr>line = 0, character = 0\<rparr>),
          revealed = None\<rparr>" "3 / 4"]
  by (simp add: selectRandomLines_def mkPosition_def lineAt_def mkRange_def isBefore_def
        getText_def validatePosition_def Let_def)

text \<open>
  Claim C10. On a document with no line, \<open>selectRandomLines\<close> returns the empty string
  and leaves the editor as it was: selection and revealed range are unchanged.
\<close>

theorem selectRandomLines_empty_document:
  assumes "docLines (document editor) = []"
  shows "selectRandomLines editor lineCount rnd = Inr ([], editor)"
  using assms by (simp add: selectRandomLines_def)

theorem selectRandomLines_empty_document_witness:
  "docLines (document
      \<lparr>document = \<lparr>docLines = [], eol = [CHR 10]\<rparr>,
       selection = (\<lparr>line = 4, character = 1\<rparr>, \<lparr>line = 7, character = 2\<rparr>),
       revealed = Some (\<lparr>line = 4, character = 1\<rparr>, \<lparr>line = 7, character = 2\<rparr>)\<rparr>) = []
   \<and> selectRandomLines
        \<lparr>document = \<lparr>docLines = [], eol = [CHR 10]\<rparr>,
         selection = (\<lparr>line = 4, character = 1\<rparr>, \<lparr>line = 7, character = 2\<rparr>),
         revealed = Some (\<lparr>line = 4, character = 1\<rparr>, \<lparr>line = 7, character = 2\<rparr>)\<rparr> 5 (1 / 2)
       = Inr ([],
              \<lparr>document = \<lparr>docLines = [], eol = [CHR 10]\<rparr>,
               selection = (\<lparr>line = 4, character = 1\<rparr>, \<lparr>line = 7, character = 2\<rparr>),
               revealed = Some (\<lparr>line = 4, character = 1\<rparr>, \<lparr>line = 7, character = 2\<rparr>)\<rparr>)"
  using selectRandomLines_empty_document
    [of "\<lparr>document = \<lparr>docLines = [], eol = [CHR 10]\<rparr>,
          selection = (\<lparr>line = 4, character = 1\<rparr>, \<lparr>line = 7, character = 2\<rparr>),
          revealed = Some (\<lparr>line = 4, character = 1\<rparr>, \<lparr>line = 7, character = 2\<rparr>)\<rparr>" 5 "1 / 2"]
  by simp

section \<open>Properties of the Run Controller\<close>

text \<open>
  Claim C5. Invoking start while the flag is set only shows the message "already running":
  the flag stays set, no file discovery is begun and \<open>runLoop\<close> is not called. Invoking
  stop while the flag is clear only shows the message "not running" and changes nothing
  else; neither command fails.
\<close>

theorem redundant_command_only_informs:
  "(isRunning c \<longrightarrow>
      startCommand c meanwhile found = c\<lparr>shown := shown c @ [Information ''Budgie is already running!'']\<rparr>
      \<and> isRunning (startCommand c meanwhile found)
      \<and> discoveries (startCommand c meanwhile found) = discoveries c
      \<and> launched (startCommand c meanwhile found) = launched c)
   \<and> (\<not> isRunning c \<longrightarrow>
      stopCommand c = c\<lparr>shown := shown c @ [Information ''Budgie is not running.'']\<rparr>
      \<and> \<not> isRunning (stopCommand c)
      \<and> discoveries (stopCommand c) = discoveries c
      \<and> launched (stopCommand c) = launched c)"
  by (simp add: startCommand_def stopCommand_def showInformationMessage_def)

theorem redundant_command_only_informs_witness:
  "isRunning \<lparr>isRunning = True, shown = [], discoveries = 1,
               launched = [[\<lparr>scheme = ''file'', fsPath = ''/a.ts''\<rparr>]]\<rparr>
   \<and> startCommand
        \<lparr>isRunning = True, shown = [], discoveries = 1,
         launched = [[\<lparr>scheme = ''file'', fsPath = ''/a.ts''\<rparr>]]\<rparr>
        (\<lambda>c. c) [\<lparr>scheme = ''file'', fsPath = ''/b.ts''\<rparr>]
       = \<lparr>isRunning = True, shown = [Information ''Budgie is already running!''],
          discoveries = 1, launched = [[\<lparr>scheme = ''file'', fsPath = ''/a.ts''\<rparr>]]\<rparr>
   \<and> \<not> isRunning \<lparr>isRunning = False, shown = [], discoveries = 0, launched = []\<rparr>
   \<and> stopCommand \<lparr>isRunning = False, shown = [], discoveries = 0, launched = []\<rparr>
       = \<lparr>isRunning = False, shown = [Information ''Budgie is not running.''],
          discoveries = 0, launched = []\<rparr>"
  using redundant_command_only_informs
    [of "\<lparr>isRunning = True, shown = [], discoveries = 1,
          launched = [[\<lparr>scheme = ''file'', fsPath = ''/a.ts''\<rparr>]]\<rparr>"
        "\<lambda>c. c" "[\<lparr>scheme = ''file'', fsPath = ''/b.ts''\<rparr>]"]
    redundant_command_only_informs
    [of "\<lparr>isRunning = False, shown = [], discoveries = 0, launched = []\<rparr>"
        "\<lambda>c. c" "[]"]
  by simp

text \<open>
  The allow-list of lines 16-18 on one path per extension, with upper-case letters, and on
  three paths outside it.
\<close>

lemma getWorkspaceFiles_allow_list:
  "getWorkspaceFiles
     [\<lparr>scheme = ''file'', fsPath = ''/a.TS''\<rparr>, \<lparr>scheme = ''file'', fsPath = ''/b.js''\<rparr>,
      \<lparr>scheme = ''file'', fsPath = ''/c.Json''\<rparr>, \<lparr>scheme = ''file'', fsPath = ''/d.md''\<rparr>,
      \<lparr>scheme = ''file'', fsPath = ''/notes.txt''\<rparr>, \<lparr>scheme = ''file'', fsPath = ''/e.HTML''\<rparr>,
      \<lparr>scheme = ''file'', fsPath = ''/f.css''\<rparr>, \<lparr>scheme = ''file'', fsPath = ''/g.tsx''\<rparr>,
      \<lparr>scheme = ''file'', fsPath = ''/h.jsx''\<rparr>, \<lparr>scheme = ''file'', fsPath = ''/README''\<rparr>,
      \<lparr>scheme = ''file'', fsPath = ''/x.str''\<rparr>, \<lparr>scheme = ''file'', fsPath = ''/i.py''\<rparr>]
   = [\<lparr>scheme = ''file'', fsPath = ''/a.TS''\<rparr>, \<lparr>scheme = ''file'', fsPath = ''/b.js''\<rparr>,
      \<lparr>scheme = ''file'', fsPath = ''/c.Json''\<rparr>, \<lparr>scheme = ''file'', fsPath = ''/d.md''\<rparr>,
      \<lparr>scheme = ''file'', fsPath = ''/notes.txt''\<rparr>, \<lparr>scheme = ''file'', fsPath = ''/e.HTML''\<rparr>,
      \<lparr>scheme = ''file'', fsPath = ''/f.css''\<rparr>, \<lparr>scheme = ''file'', fsPath = ''/g.tsx''\<rparr>,
      \<lparr>scheme = ''file'', fsPath = ''/h.jsx''\<rparr>]"
  by (simp add: getWorkspaceFiles_def toLowerCase_def endsWith_def)

text \<open>
  Claim C6. If the discovered file list is empty when start is invoked with the flag
  clear, the handler shows the warning and does nothing else after its suspension: it
  does not set the flag and does not call \<open>runLoop\<close>. When no other handler ran during
  the suspension, the flag is still clear and the list of started loops is as before.
\<close>

theorem start_on_empty_workspace:
  assumes "\<not> isRunning c" and "getWorkspaceFiles found = []"
  shows "startCommand c meanwhile found
           = (meanwhile (c\<lparr>discoveries := discoveries c + 1\<rparr>))
               \<lparr>shown := shown (meanwhile (c\<lparr>discoveries := discoveries c + 1\<rparr>))
                          @ [Warning ''No files found in workspace'']\<rparr>
         \<and> isRunning (startCommand c meanwhile found)
             = isRunning (meanwhile (c\<lparr>discoveries := discoveries c + 1\<rparr>))
         \<and> launched (startCommand c meanwhile found)
             = launched (meanwhile (c\<lparr>discoveries := discoveries c + 1\<rparr>))
         \<and> \<not> isRunning (startCommand c (\<lambda>c. c) found)
         \<and> launched (startCommand c (\<lambda>c. c) found) = launched c"
  using assms by (simp add: startCommand_def showWarningMessage_def Let_def)

theorem start_on_empty_workspace_witness:
  "\<not> isRunning \<lparr>isRunning = False, shown = [], discoveries = 0, launched = []\<rparr>
   \<and> getWorkspaceFiles
        [\<lparr>scheme = ''file'', fsPath = ''/README''\<rparr>, \<lparr>scheme = ''file'', fsPath = ''/x.str''\<rparr>] = []
   \<and> startCommand \<lparr>isRunning = False, shown = [], discoveries = 0, launched = []\<rparr>
        (\<lambda>c. c) [\<lparr>scheme = ''file'', fsPath = ''/README''\<rparr>, \<lparr>scheme = ''file'', fsPath = ''/x.str''\<rparr>]
       = \<lparr>isRunning = False, shown = [Warning ''No files found in workspace''],
          discoveries = 1, launched = []\<rparr>"
  using start_on_empty_workspace
    [of "\<lparr>isRunning = False, shown = [], discoveries = 0, launched = []\<rparr>"
        "[\<lparr>scheme = ''file'', fsPath = ''/README''\<rparr>, \<lparr>scheme = ''file'', fsPath = ''/x.str''\<rparr>]"
        "\<lambda>c. c"]
  by (simp add: getWorkspaceFiles_def toLowerCase_def endsWith_def)

text \<open>
  With a \<open>.txt\<close> file in the workspace the discovered list is not empty and the handler
  sets the flag and starts the loop on it.
\<close>

lemma start_on_txt_workspace:
  \<open>startCommand \<lparr>isRunning = False, shown = [], discoveries = 0, launched = []\<rparr>
     (\<lambda>c. c) [\<lparr>scheme = ''file'', fsPath = ''/notes.txt''\<rparr>]
   = \<lparr>isRunning = True, shown = [Information ''Budgie started! Use "Budgie: Stop" to stop.''],
      discoveries = 1, launched = [[\<lparr>scheme = ''file'', fsPath = ''/notes.txt''\<rparr>]]\<rparr>\<close>
  by (simp add: startCommand_def showInformationMessage_def getWorkspaceFiles_def
        toLowerCase_def endsWith_def)

section \<open>Properties of the activity loop: file picks\<close>

abbreviation notExhausted :: "outcome \<Rightarrow> loop_state \<Rightarrow> bool" where
  "notExhausted out s \<equiv> out \<noteq> Exhausted"

lemma getRandomFile_unfiltered_some:
  assumes "files \<noteq> []" and "0 \<le> rnd" and "rnd < 1"
  shows "getRandomFile files None rnd \<noteq> None"
proof -
  from assms(1) have "available files None \<noteq> []" by (simp add: available_def)
  from getRandomFile_member [OF assms(2,3) this] show ?thesis by auto
qed

lemma chooseFile_some:
  assumes "files \<noteq> []" and "\<forall>n. 0 \<le> mathRandom h n \<and> mathRandom h n < 1"
  shows "triple P (chooseFile h files None) (\<lambda>picked _. picked \<noteq> None) notExhausted"
proof (rule tripleI)
  fix s x s' assume "chooseFile h files None s = Continue x s'"
  then have "x = getRandomFile files None (mathRandom h (draws s))"
    by (simp add: chooseFile_def)
  with getRandomFile_unfiltered_some [OF assms(1), of "mathRandom h (draws s)"] assms(2)
  show "x \<noteq> None" by simp
next
  fix s out s' assume "chooseFile h files None s = Stop out s'"
  then show "out \<noteq> Exhausted" by (simp add: chooseFile_def)
qed

lemma chooseFile_ne: "triple P (chooseFile h files exclude) (\<lambda>_ _. True) notExhausted"
  by (rule tripleI) (auto simp: chooseFile_def)

lemma act_ne: "triple P (act a) (\<lambda>_ _. True) notExhausted"
  by (rule tripleI) (auto simp: act_def)

lemma await_ne: "triple P (await a) (\<lambda>_ _. True) notExhausted"
  by (rule tripleI) (auto simp: await_def Let_def split: list.splits)

lemma breakUnlessRunning_ne: "triple P breakUnlessRunning (\<lambda>_ _. True) notExhausted"
  by (rule tripleI) (auto simp: breakUnlessRunning_def Let_def split: if_splits)

lemma selectLines_ne: "triple P (selectLines h editor k) (\<lambda>_ _. True) notExhausted"
  by (rule tripleI) (auto simp: selectLines_def Let_def split: sum.splits)

lemmas ne_base = act_ne await_ne breakUnlessRunning_ne selectLines_ne

lemma openFile_ne: "triple P (openFile h file) (\<lambda>_ _. True) notExhausted"
  unfolding openFile_def
  by (rule triple_andThen ne_base triple_Continue TrueI)+

lemma scrollLoop_ne:
  "scrollLoop lineCount endTime cur s \<noteq> Stop Exhausted s'"
proof (induction lineCount endTime cur s rule: scrollLoop.induct)
  case (1 lineCount endTime cur s)
  note unfold = scrollLoop.simps [of lineCount endTime cur s]
  show ?case
  proof
    assume stop: "scrollLoop lineCount endTime cur s = Stop Exhausted s'"
    then have go: "clock s < endTime" "running (perform ReadIsRunning s)"
      by (auto simp: unfold Let_def split: if_splits)
    with stop obtain pos where pos: "mkPosition (fst cur) 0 = Inr pos"
      by (auto simp: unfold Let_def split: sum.splits)
    show False
    proof (cases "await (Sleep 200) (perform (RevealRange pos pos) (perform ReadIsRunning s))")
      case (Continue u s3)
      with stop go pos have "scrollLoop lineCount endTime (advance lineCount cur) s3 = Stop Exhausted s'"
        by (simp add: unfold Let_def)
      with "1.IH" [OF _ refl _ pos Continue] go show False by simp
    next
      case (Stop out s3)
      with stop go pos have "out = Exhausted" by (simp add: unfold Let_def)
      with Stop show False by (auto simp: await_def Let_def split: list.splits)
    qed
  qed
qed

lemma scrollUpAndDown_ne: "triple P (scrollUpAndDown editor d) (\<lambda>_ _. True) notExhausted"
  by (rule tripleI) (auto simp: scrollUpAndDown_def Let_def scrollLoop_ne)

lemmas ne_rules = ne_base openFile_ne scrollUpAndDown_ne chooseFile_ne

lemma cycle_ne:
  assumes "files \<noteq> []" and "\<forall>n. 0 \<le> mathRandom h n \<and> mathRandom h n < 1"
  shows "triple (\<lambda>_. True) (cycle h files) (\<lambda>_ _. True) notExhausted"
proof -
  note pick = chooseFile_some [OF assms]
  have s1: "triple P (step1 h files) (\<lambda>_ _. True) notExhausted" for P
    unfolding step1_def
    by (rule triple_andThen [OF pick], rule triple_option, rule triple_Stop, simp,
        (rule triple_andThen ne_rules triple_Continue TrueI)+)
  have s2: "triple P (step2 h files f) (\<lambda>_ _. True) notExhausted" for P f
    unfolding step2_def Let_def
    by (rule triple_andThen ne_rules triple_Continue TrueI)+
  have s3: "triple P (step3 h files) (\<lambda>_ _. True) notExhausted" for P
    unfolding step3_def
    by (rule triple_andThen [OF pick], rule triple_option, rule triple_Stop, simp,
        (rule triple_andThen ne_rules triple_Continue TrueI)+)
  have s4: "triple P (step4 c) (\<lambda>_ _. True) notExhausted" for P c
    unfolding step4_def
    by (rule triple_andThen ne_rules triple_Continue TrueI)+
  have s5: "triple P step5 (\<lambda>_ _. True) notExhausted" for P
    unfolding step5_def
    by (rule triple_andThen ne_rules triple_Continue TrueI)+
  have s6: "triple P (step6 h files) (\<lambda>_ _. True) notExhausted" for P
    unfolding step6_def
    by (rule triple_andThen [OF pick], rule triple_option, rule triple_Stop, simp,
        (rule triple_andThen ne_rules triple_Continue TrueI)+)
  show ?thesis
    unfolding cycle_def
    by (rule triple_andThen s1 s2 s3 s4 s5 s6)+
qed

lemma runLoop_ne:
  assumes "files \<noteq> []" and "\<forall>n. 0 \<le> mathRandom h n \<and> mathRandom h n < 1"
  shows "fst (runLoop h files s) \<noteq> Exhausted"
  using assms
proof (induction h files s rule: runLoop.induct)
  case (1 h files s)
  let ?s1 = "perform ReadIsRunning s"
  note unfold = runLoop.simps [of h files s]
  show ?case
  proof (cases "running ?s1")
    case False
    then show ?thesis by (simp add: unfold Let_def)
  next
    case True
    show ?thesis
    proof (cases "cycle h files ?s1")
      case (Continue u s2)
      from "1.IH" [OF refl _ Continue "1.prems"] True
      have "fst (runLoop h files s2) \<noteq> Exhausted" by simp
      with True Continue show ?thesis by (simp add: unfold Let_def)
    next
      case (Stop out s2)
      from tripleD_Stop [OF cycle_ne [OF "1.prems"] TrueI Stop] have "out \<noteq> Exhausted" .
      with True Stop show ?thesis by (simp add: unfold Let_def)
    qed
  qed
qed

text \<open>
  Claim C9. When the file list passed to the loop is not empty and the random source
  keeps to \<open>[0, 1)\<close>, every pick without exclusion returns a file, so the loop never
  ends through a break on a missing file (steps 1, 3 and 6); put the other way round, a
  pick without exclusion yields \<open>undefined\<close> only for an empty list.
\<close>

theorem nonempty_files_never_exhausted:
  assumes "files \<noteq> []" and "\<forall>n. 0 \<le> mathRandom h n \<and> mathRandom h n < 1"
  shows "getRandomFile files None (mathRandom h n) \<noteq> None
         \<and> fst (runLoop h files s) \<noteq> Exhausted"
  using getRandomFile_unfiltered_some [OF assms(1), of "mathRandom h n"] assms(2)
    runLoop_ne [OF assms] by simp

theorem nonempty_files_never_exhausted_witness:
  "[\<lparr>scheme = ''file'', fsPath = ''/a.ts''\<rparr>] \<noteq> []
   \<and> (0::real) \<le> 1 / 2 \<and> (1 / 2 :: real) < 1
   \<and> getRandomFile [\<lparr>scheme = ''file'', fsPath = ''/a.ts''\<rparr>] None (1 / 2)
       = Some \<lparr>scheme = ''file'', fsPath = ''/a.ts''\<rparr>
   \<and> fst (runLoop
        \<lparr>editorOf = (\<lambda>_. \<lparr>document = \<lparr>docLines = [''ab'', ''cde''], eol = [CHR 10]\<rparr>,
             selection = (\<lparr>line = 0, character = 0\<rparr>, \<lparr>line = 0, character = 0\<rparr>),
             revealed = None\<rparr>),
          mathRandom = (\<lambda>_. 1 / 2)\<rparr>
        [\<lparr>scheme = ''file'', fsPath = ''/a.ts''\<rparr>]
        \<lparr>running = True, clock = 0, draws = 0,
          pending = [\<lparr>flagAfter = True, clockAfter = 5\<rparr>, \<lparr>flagAfter = True, clockAfter = 9\<rparr>,
                     \<lparr>flagAfter = False, clockAfter = 2009\<rparr>],
          trace = []\<rparr>) = Halted"
  using nonempty_files_never_exhausted
    [of "[\<lparr>scheme = ''file'', fsPath = ''/a.ts''\<rparr>]"
        "\<lparr>editorOf = (\<lambda>_. \<lparr>document = \<lparr>docLines = [''ab'', ''cde''], eol = [CHR 10]\<rparr>,
             selection = (\<lparr>line = 0, character = 0\<rparr>, \<lparr>line = 0, character = 0\<rparr>),
             revealed = None\<rparr>),
          mathRandom = (\<lambda>_. 1 / 2)\<rparr>" 0
        "\<lparr>running = True, clock = 0, draws = 0,
          pending = [\<lparr>flagAfter = True, clockAfter = 5\<rparr>, \<lparr>flagAfter = True, clockAfter = 9\<rparr>,
                     \<lparr>flagAfter = False, clockAfter = 2009\<rparr>],
          trace = []\<rparr>"]
  by (simp add: runLoop.simps cycle_def step1_def andThen_def chooseFile_def getRandomFile_def
      available_def arrayAt_def breakUnlessRunning_def perform_def openFile_def await_def
      selectLines_def selectRandomLines_def Let_def mkPosition_def lineAt_def mkRange_def
      isBefore_def getText_def validatePosition_def act_def)


section \<open>Properties of the scroll animation\<close>

lemma revealedLines_append: "revealedLines (xs @ ys) = revealedLines xs @ revealedLines ys"
  by (induction xs rule: revealedLines.induct) simp_all

lemma revealedLines_perform_reveal:
  "revealedLines (trace (perform (RevealRange p q) s)) = revealedLines (trace s) @ [line p]"
  by (simp add: perform_def revealedLines_append)

lemma revealedLines_perform_read:
  "revealedLines (trace (perform ReadIsRunning s)) = revealedLines (trace s)"
  by (simp add: perform_def revealedLines_append)

lemma revealedLines_await_sleep:
  "revealedLines (trace (stateOf (await (Sleep ms) s))) = revealedLines (trace s)"
  by (simp add: await_def perform_def stateOf_def revealedLines_append Let_def split: list.splits)

lemma advance_within:
  assumes "1 \<le> lineCount" and "0 \<le> fst cur" and "fst cur \<le> lineCount - 1"
  shows "0 \<le> fst (advance lineCount cur)" and "fst (advance lineCount cur) \<le> lineCount - 1"
  using assms by (auto simp: advance_def Let_def)

lemma advance_turns:
  "(snd cur \<and> lineCount - 1 \<le> fst cur + 10 \<longrightarrow> advance lineCount cur = (lineCount - 1, False))
   \<and> (snd cur \<and> fst cur + 10 < lineCount - 1 \<longrightarrow> advance lineCount cur = (fst cur + 10, True))
   \<and> (\<not> snd cur \<and> fst cur - 10 \<le> 0 \<longrightarrow> advance lineCount cur = (0, True))
   \<and> (\<not> snd cur \<and> 0 < fst cur - 10 \<longrightarrow> advance lineCount cur = (fst cur - 10, False))"
  by (auto simp: advance_def Let_def)

lemma scrollLoop_reveals:
  assumes "1 \<le> lineCount" and "0 \<le> fst cur" and "fst cur \<le> lineCount - 1"
    and "\<forall>l \<in> set (revealedLines (trace s)). 0 \<le> l \<and> l \<le> lineCount - 1"
  shows "(\<forall>l \<in> set (revealedLines (trace (stateOf (scrollLoop lineCount endTime cur s)))).
            0 \<le> l \<and> l \<le> lineCount - 1)
         \<and> \<not> thrown (scrollLoop lineCount endTime cur s)"
  using assms
proof (induction lineCount endTime cur s rule: scrollLoop.induct)
  case (1 lineCount endTime cur s)
  note unfold = scrollLoop.simps [of lineCount endTime cur s]
  let ?s1 = "perform ReadIsRunning s"
  show ?case
  proof (cases "clock s < endTime \<and> running ?s1")
    case False
    with "1.prems"(4) show ?thesis
      by (auto simp: unfold Let_def stateOf_def thrown_def revealedLines_perform_read)
  next
    case True
    define pos where "pos = \<lparr>line = fst cur, character = 0\<rparr>"
    from "1.prems"(2) have pos: "mkPosition (fst cur) 0 = Inr pos"
      by (simp add: mkPosition_def pos_def)
    let ?s2 = "perform (RevealRange pos pos) ?s1"
    have inv2: "\<forall>l \<in> set (revealedLines (trace ?s2)). 0 \<le> l \<and> l \<le> lineCount - 1"
      using "1.prems"(2,3,4)
      by (simp add: revealedLines_perform_reveal revealedLines_perform_read pos_def)
    show ?thesis
    proof (cases "await (Sleep 200) ?s2")
      case (Stop out s3)
      then have "out = Suspended" by (auto simp: await_def Let_def split: list.splits)
      moreover from Stop have "revealedLines (trace s3) = revealedLines (trace ?s2)"
        using revealedLines_await_sleep [of 200 ?s2] by (simp add: stateOf_def)
      ultimately show ?thesis using True pos Stop inv2
        by (simp add: unfold Let_def stateOf_def thrown_def)
    next
      case (Continue u s3)
      then have "revealedLines (trace s3) = revealedLines (trace ?s2)"
        using revealedLines_await_sleep [of 200 ?s2] by (simp add: stateOf_def)
      with inv2 have inv3: "\<forall>l \<in> set (revealedLines (trace s3)). 0 \<le> l \<and> l \<le> lineCount - 1"
        by simp
      from True have c1: "\<not> \<not> clock s < endTime" and c2: "\<not> \<not> running ?s1" by simp_all
      from "1.IH" [OF c1 refl c2 pos Continue "1.prems"(1)
          advance_within [OF "1.prems"(1,2,3)] inv3]
      show ?thesis using True pos Continue by (simp add: unfold Let_def)
    qed
  qed
qed

text \<open>
  Claim C8. For a document with at least one line, every line the scroll animation
  reveals lies in \<open>[0, lineCount - 1]\<close> and no position it builds is rejected by the
  host; a move from a line in that interval ends in that interval; a downward move that
  reaches \<open>lineCount - 1\<close> ends exactly there with the direction turned upward, and an
  upward move that reaches 0 ends exactly at 0 with the direction turned downward.
\<close>

theorem scroll_stays_in_document:
  assumes "docLines (document editor) \<noteq> []"
    and "\<forall>l \<in> set (revealedLines (trace s)). 0 \<le> l \<and> l \<le> int (length (docLines (document editor))) - 1"
  shows "(\<forall>l \<in> set (revealedLines (trace (stateOf (scrollUpAndDown editor durationMs s)))).
            0 \<le> l \<and> l \<le> int (length (docLines (document editor))) - 1)
         \<and> \<not> thrown (scrollUpAndDown editor durationMs s)
         \<and> (0 \<le> fst cur \<and> fst cur \<le> int (length (docLines (document editor))) - 1 \<longrightarrow>
              0 \<le> fst (advance (int (length (docLines (document editor)))) cur)
              \<and> fst (advance (int (length (docLines (document editor)))) cur)
                  \<le> int (length (docLines (document editor))) - 1)
         \<and> (snd cur \<and> int (length (docLines (document editor))) - 1 \<le> fst cur + 10 \<longrightarrow>
              advance (int (length (docLines (document editor)))) cur
                = (int (length (docLines (document editor))) - 1, False))
         \<and> (\<not> snd cur \<and> fst cur - 10 \<le> 0 \<longrightarrow>
              advance (int (length (docLines (document editor)))) cur = (0, True))"
proof -
  let ?n = "int (length (docLines (document editor)))"
  from assms(1) have n: "1 \<le> ?n" by (cases "docLines (document editor)") simp_all
  have "(\<forall>l \<in> set (revealedLines (trace (stateOf (scrollLoop ?n (clock s + durationMs) (0, True) s)))).
            0 \<le> l \<and> l \<le> ?n - 1)
         \<and> \<not> thrown (scrollLoop ?n (clock s + durationMs) (0, True) s)"
    using n assms by (intro scrollLoop_reveals) simp_all
  then have loop: "(\<forall>l \<in> set (revealedLines (trace (stateOf (scrollUpAndDown editor durationMs s)))).
            0 \<le> l \<and> l \<le> ?n - 1)
         \<and> \<not> thrown (scrollUpAndDown editor durationMs s)"
    by (simp add: scrollUpAndDown_def Let_def)
  show ?thesis
    using loop advance_within [OF n, of cur] advance_turns [of cur ?n] by blast
qed

theorem scroll_stays_in_document_witness:
  "docLines (document
      \<lparr>document = \<lparr>docLines = replicate 25 ''x'', eol = [CHR 10]\<rparr>,
       selection = (\<lparr>line = 0, character = 0\<rparr>, \<lparr>line = 0, character = 0\<rparr>),
       revealed = None\<rparr>) \<noteq> []
   \<and> revealedLines (trace (stateOf (scrollUpAndDown
        \<lparr>document = \<lparr>docLines = replicate 25 ''x'', eol = [CHR 10]\<rparr>,
         selection = (\<lparr>line = 0, character = 0\<rparr>, \<lparr>line = 0, character = 0\<rparr>),
         revealed = None\<rparr> 5000
        \<lparr>running = True, clock = 0, draws = 0,
          pending = [\<lparr>flagAfter = True, clockAfter = 200\<rparr>, \<lparr>flagAfter = True, clockAfter = 400\<rparr>,
                     \<lparr>flagAfter = True, clockAfter = 600\<rparr>, \<lparr>flagAfter = True, clockAfter = 800\<rparr>,
                     \<lparr>flagAfter = True, clockAfter = 1000\<rparr>, \<lparr>flagAfter = True, clockAfter = 1200\<rparr>,
                     \<lparr>flagAfter = False, clockAfter = 1400\<rparr>],
          trace = []\<rparr>))) = [0, 10, 20, 24, 14, 4, 0]
   \<and> advance 25 (20, True) = (24, False)
   \<and> advance 25 (4, False) = (0, True)"
  using scroll_stays_in_document
    [where editor = "\<lparr>document = \<lparr>docLines = replicate 25 ''x'', eol = [CHR 10]\<rparr>,
         selection = (\<lparr>line = 0, character = 0\<rparr>, \<lparr>line = 0, character = 0\<rparr>),
         revealed = None\<rparr>"
       and durationMs = 5000
       and cur = "(20, True)"
       and s = "\<lparr>running = True, clock = 0, draws = 0,
          pending = [\<lparr>flagAfter = True, clockAfter = 200\<rparr>, \<lparr>flagAfter = True, clockAfter = 400\<rparr>,
                     \<lparr>flagAfter = True, clockAfter = 600\<rparr>, \<lparr>flagAfter = True, clockAfter = 800\<rparr>,
                     \<lparr>flagAfter = True, clockAfter = 1000\<rparr>, \<lparr>flagAfter = True, clockAfter = 1200\<rparr>,
                     \<lparr>flagAfter = False, clockAfter = 1400\<rparr>],
          trace = []\<rparr>"]
  by (simp add: scrollUpAndDown_def scrollLoop.simps Let_def perform_def await_def mkPosition_def
        advance_def stateOf_def)

section \<open>Properties of the activity loop: checkpoints\<close>

text \<open>
  The assertions of the proof. A trace is \<open>clean\<close> when no checkpoint in it found the flag
  clear. \<open>checked\<close> holds of the states in which the loop performs its actions, \<open>paused\<close>
  of those right after a pause, \<open>scrolled\<close> of those the scroll animation returns in, and
  \<open>broke\<close> of those in which an iteration ends early.
\<close>


definition clean :: "(bool \<times> action) list \<Rightarrow> bool" where
  "clean tr = (stoppedRead \<notin> set tr)"

definition endsWithSleep :: "(bool \<times> action) list \<Rightarrow> bool" where
  "endsWithSleep tr = (tr \<noteq> [] \<and> isSleep (snd (last tr)))"

definition paused :: "loop_state \<Rightarrow> bool" where
  "paused s = (clean (trace s) \<and> pausesChecked (trace s))"

definition checked :: "loop_state \<Rightarrow> bool" where
  "checked s = (paused s \<and> \<not> endsWithSleep (trace s))"

definition broke :: "outcome \<Rightarrow> loop_state \<Rightarrow> bool" where
  "broke out s =
     (pausesChecked (trace s) \<and>
      (if out = Halted then \<exists>pre. trace s = pre @ [stoppedRead] \<and> clean pre
       else clean (trace s)))"

definition scrolled :: "loop_state \<Rightarrow> bool" where
  "scrolled s =
     (pausesChecked (trace s) \<and>
      (clean (trace s) \<or> (\<not> running s \<and> (\<exists>pre. trace s = pre @ [stoppedRead] \<and> clean pre))))"

lemma zip_tl_snoc:
  "zip (xs @ [e]) (tl (xs @ [e])) = zip xs (tl xs) @ (if xs = [] then [] else [(last xs, e)])"
proof (induction xs)
  case Nil
  show ?case by simp
next
  case (Cons x xs)
  then show ?case by (cases xs) simp_all
qed

lemma pausesChecked_snoc:
  "pausesChecked (tr @ [e]) = (pausesChecked tr \<and> (endsWithSleep tr \<longrightarrow> snd e = ReadIsRunning))"
  by (auto simp: pausesChecked_def zip_tl_snoc endsWithSleep_def)

lemma clean_snoc: "clean (tr @ [e]) = (clean tr \<and> e \<noteq> stoppedRead)"
  by (auto simp: clean_def)

lemma endsWithSleep_snoc: "endsWithSleep (tr @ [e]) = isSleep (snd e)"
  by (simp add: endsWithSleep_def)

lemma trace_perform: "trace (perform a s) = trace s @ [(running s, a)]"
  by (simp add: perform_def)

lemma running_perform: "running (perform a s) = running s"
  by (simp add: perform_def)

lemma checked_perform:
  assumes "checked s" and "a \<noteq> ReadIsRunning" and "\<not> isSleep a"
  shows "checked (perform a s)"
  using assms
  by (simp add: checked_def paused_def trace_perform pausesChecked_snoc clean_snoc
      endsWithSleep_snoc stoppedRead_def)

lemma paused_perform_sleep:
  assumes "checked s"
  shows "paused (perform (Sleep ms) s)"
  using assms
  by (simp add: checked_def paused_def trace_perform pausesChecked_snoc clean_snoc stoppedRead_def)

lemma checked_imp_paused: "checked s \<Longrightarrow> paused s"
  by (simp add: checked_def)

lemma paused_imp_broke: "paused s \<Longrightarrow> out \<noteq> Halted \<Longrightarrow> broke out s"
  by (simp add: paused_def broke_def)

lemma act_checked:
  assumes "a \<noteq> ReadIsRunning" and "\<not> isSleep a"
  shows "triple checked (act a) (\<lambda>_. checked) broke"
  using assms by (intro tripleI) (auto simp: act_def checked_perform)

lemma await_states:
  assumes "await a s = r"
  shows "(\<exists>s'. r = Stop Suspended s' \<and> trace s' = trace (perform a s))
       \<or> (\<exists>s'. r = Continue () s' \<and> trace s' = trace (perform a s))"
  using assms by (auto simp: await_def Let_def split: list.splits)

lemma await_checked:
  assumes "a \<noteq> ReadIsRunning" and "\<not> isSleep a"
  shows "triple checked (await a) (\<lambda>_. checked) broke"
proof (rule tripleI)
  fix s x s' assume pre: "checked s" and run: "await a s = Continue x s'"
  from await_states [OF run] have "trace s' = trace (perform a s)" by auto
  with checked_perform [OF pre assms] show "checked s'"
    by (simp add: checked_def paused_def)
next
  fix s out s' assume pre: "checked s" and run: "await a s = Stop out s'"
  from await_states [OF run] have "trace s' = trace (perform a s)" and "out = Suspended" by auto
  with checked_perform [OF pre assms] show "broke out s'"
    by (simp add: checked_def paused_def broke_def)
qed

lemma await_sleep_paused: "triple checked (await (Sleep ms)) (\<lambda>_. paused) broke"
proof (rule tripleI)
  fix s x s' assume pre: "checked s" and run: "await (Sleep ms) s = Continue x s'"
  from await_states [OF run] have "trace s' = trace (perform (Sleep ms) s)" by auto
  with paused_perform_sleep [OF pre] show "paused s'" by (simp add: paused_def)
next
  fix s out s' assume pre: "checked s" and run: "await (Sleep ms) s = Stop out s'"
  from await_states [OF run] have "trace s' = trace (perform (Sleep ms) s)" and "out = Suspended"
    by auto
  with paused_perform_sleep [OF pre] show "broke out s'" by (simp add: paused_def broke_def)
qed

lemma read_running:
  assumes "paused s" and "running s"
  shows "checked (perform ReadIsRunning s)"
  using assms
  by (simp add: checked_def paused_def trace_perform pausesChecked_snoc clean_snoc
      endsWithSleep_snoc stoppedRead_def)

lemma read_stopped:
  assumes "paused s" and "\<not> running s"
  shows "pausesChecked (trace (perform ReadIsRunning s))"
    and "trace (perform ReadIsRunning s) = trace s @ [stoppedRead]"
  using assms
  by (simp_all add: paused_def trace_perform pausesChecked_snoc stoppedRead_def)

lemma breakUnlessRunning_paused: "triple paused breakUnlessRunning (\<lambda>_. checked) broke"
proof (rule tripleI)
  fix s x s' assume "paused s" and "breakUnlessRunning s = Continue x s'"
  then show "checked s'"
    by (auto simp: breakUnlessRunning_def Let_def running_perform read_running split: if_splits)
next
  fix s out s' assume pre: "paused s" and run: "breakUnlessRunning s = Stop out s'"
  then have st: "\<not> running s" "out = Halted" "s' = perform ReadIsRunning s"
    by (auto simp: breakUnlessRunning_def Let_def running_perform split: if_splits)
  from read_stopped [OF pre st(1)] pre st show "broke out s'"
    by (auto simp: broke_def paused_def)
qed

lemma breakUnlessRunning_checked: "triple checked breakUnlessRunning (\<lambda>_. checked) broke"
  by (rule triple_weaken [OF breakUnlessRunning_paused]) (simp_all add: checked_imp_paused)

lemma chooseFile_checked: "triple checked (chooseFile h files exclude) (\<lambda>_. checked) broke"
  by (rule tripleI) (auto simp: chooseFile_def checked_def paused_def split: if_splits)

lemma selectLines_checked: "triple checked (selectLines h editor k) (\<lambda>_. checked) broke"
proof (rule tripleI)
  fix s x s' assume pre: "checked s" and run: "selectLines h editor k s = Continue x s'"
  define s1 where "s1 = (if length (docLines (document editor)) = 0 then s else s\<lparr>draws := Suc (draws s)\<rparr>)"
  from pre have "checked s1" by (simp add: s1_def checked_def paused_def)
  moreover from run have "s' = perform (SelectRandomLines (snd x)) s1"
    by (auto simp: selectLines_def Let_def s1_def split: sum.splits)
  ultimately show "checked s'" by (simp add: checked_perform)
next
  fix s out s' assume pre: "checked s" and run: "selectLines h editor k s = Stop out s'"
  then have "out \<noteq> Halted" and "trace s' = trace s"
    by (auto simp: selectLines_def Let_def split: sum.splits if_splits)
  with pre show "broke out s'" by (simp add: broke_def checked_def paused_def)
qed

lemma await_host_checked:
  "triple checked (await (OpenTextDocument f)) (\<lambda>_. checked) broke"
  "triple checked (await (ShowTextDocument f)) (\<lambda>_. checked) broke"
  "triple checked (await (ClipboardWriteText str)) (\<lambda>_. checked) broke"
  "triple checked (await OpenUntitledDocument) (\<lambda>_. checked) broke"
  "triple checked (await ShowUntitledDocument) (\<lambda>_. checked) broke"
  "triple checked (await (EditInsert p str)) (\<lambda>_. checked) broke"
  "triple checked (await (ExecuteCommand cmd)) (\<lambda>_. checked) broke"
  by (rule await_checked; simp)+

lemma act_deselect_checked: "triple checked (act (DeselectLines editor)) (\<lambda>_. checked) broke"
  by (rule act_checked) simp_all

lemma continue_checked: "triple checked (Continue x) (\<lambda>_. checked) broke"
  by (rule triple_Continue)

lemmas checked_base = await_host_checked act_deselect_checked await_sleep_paused
  breakUnlessRunning_paused breakUnlessRunning_checked chooseFile_checked selectLines_checked
  continue_checked

lemma openFile_checked: "triple checked (openFile h file) (\<lambda>_. checked) broke"
  unfolding openFile_def
  by (rule triple_andThen checked_base)+

lemma stop_exhausted_checked: "triple checked (Stop Exhausted) Q broke"
  by (rule triple_Stop) (simp add: checked_def paused_imp_broke)

lemma scrollLoop_scrolled:
  assumes "paused s"
  shows "case scrollLoop lineCount endTime cur s of
           Continue x s' \<Rightarrow> scrolled s'
         | Stop out s' \<Rightarrow> broke out s'"
  using assms
proof (induction lineCount endTime cur s rule: scrollLoop.induct)
  case (1 lineCount endTime cur s)
  note unfold = scrollLoop.simps [of lineCount endTime cur s]
  let ?s1 = "perform ReadIsRunning s"
  show ?case
  proof (cases "clock s < endTime")
    case False
    with "1.prems" show ?thesis by (simp add: unfold scrolled_def paused_def)
  next
    case late: True
    show ?thesis
    proof (cases "running s")
      case False
      from read_stopped [OF "1.prems" False] "1.prems" have "scrolled ?s1"
        using False by (auto simp: scrolled_def paused_def running_perform)
      with late False show ?thesis by (simp add: unfold Let_def running_perform)
    next
      case True
      from read_running [OF "1.prems" True] have c1: "checked ?s1" .
      show ?thesis
      proof (cases "mkPosition (fst cur) 0")
        case (Inl err)
        from c1 have "broke (Threw err) ?s1" by (simp add: checked_def paused_imp_broke)
        with late True Inl show ?thesis by (simp add: unfold Let_def running_perform)
      next
        case (Inr pos)
        let ?s2 = "perform (RevealRange pos pos) ?s1"
        from c1 have c2: "checked ?s2" by (simp add: checked_perform)
        show ?thesis
        proof (cases "await (Sleep 200) ?s2")
          case (Stop out s3)
          from tripleD_Stop [OF await_sleep_paused c2 Stop] have "broke out s3" .
          with late True Inr Stop show ?thesis by (simp add: unfold Let_def running_perform)
        next
          case (Continue u s3)
          from tripleD_Continue [OF await_sleep_paused c2 Continue] have p3: "paused s3" .
          from late have n1: "\<not> \<not> clock s < endTime" by simp
          from True have n2: "\<not> \<not> running ?s1" by (simp add: running_perform)
          from "1.IH" [OF n1 refl n2 Inr Continue p3]
          show ?thesis using late True Inr Continue by (simp add: unfold Let_def running_perform)
        qed
      qed
    qed
  qed
qed

lemma scrollUpAndDown_checked: "triple checked (scrollUpAndDown editor d) (\<lambda>_. scrolled) broke"
  unfolding triple_def scrollUpAndDown_def Let_def
  using scrollLoop_scrolled checked_imp_paused by blast

lemma step1_checked: "triple checked (step1 h files) (\<lambda>_. checked) broke"
  unfolding step1_def
  by (rule triple_andThen triple_option stop_exhausted_checked checked_base openFile_checked)+

lemma step2_checked: "triple checked (step2 h files file1) (\<lambda>_. checked) broke"
  unfolding step2_def Let_def
  by (rule triple_andThen checked_base openFile_checked)+

lemma step3_checked: "triple checked (step3 h files) (\<lambda>_. checked) broke"
  unfolding step3_def
  by (rule triple_andThen triple_option stop_exhausted_checked checked_base openFile_checked)+

lemma step4_checked: "triple checked (step4 copiedText) (\<lambda>_. checked) broke"
  unfolding step4_def
  by (rule triple_andThen checked_base)+

lemma step5_checked: "triple checked step5 (\<lambda>_. checked) broke"
  unfolding step5_def
  by (rule triple_andThen checked_base)+

lemma step6_checked: "triple checked (step6 h files) (\<lambda>_. scrolled) broke"
  unfolding step6_def
  by (rule triple_andThen triple_option stop_exhausted_checked checked_base openFile_checked
      scrollUpAndDown_checked)+

lemma cycle_checked: "triple checked (cycle h files) (\<lambda>_. scrolled) broke"
  unfolding cycle_def
  by (rule triple_andThen step1_checked step2_checked step3_checked step4_checked step5_checked
      step6_checked)+

definition settled :: "outcome \<times> loop_state \<Rightarrow> bool" where
  "settled r =
     (pausesChecked (trace (snd r)) \<and> nothingAfterStop (trace (snd r)) \<and>
      (stoppedRead \<in> set (trace (snd r)) \<longrightarrow> fst r = Halted))"

lemma nothingAfterStop_clean: "clean tr \<Longrightarrow> nothingAfterStop tr"
  by (induction tr) (auto simp: nothingAfterStop_def clean_def)

lemma nothingAfterStop_stopped:
  assumes "clean pre" and "\<forall>e \<in> set post. e = stoppedRead"
  shows "nothingAfterStop (pre @ stoppedRead # post)"
proof -
  from assms(1) have "dropWhile (\<lambda>e. e \<noteq> stoppedRead) (pre @ stoppedRead # post) = stoppedRead # post"
    by (subst dropWhile_append2) (auto simp: clean_def)
  with assms(2) show ?thesis by (simp add: nothingAfterStop_def list_all_iff)
qed

lemma broke_settled: "broke out s \<Longrightarrow> settled (out, s)"
  by (cases "out = Halted")
     (auto simp: broke_def settled_def nothingAfterStop_clean nothingAfterStop_stopped clean_def)

lemma runLoop_settled:
  assumes "scrolled s"
  shows "settled (runLoop h files s)"
  using assms
proof (induction h files s rule: runLoop.induct)
  case (1 h files s)
  note unfold = runLoop.simps [of h files s]
  let ?s1 = "perform ReadIsRunning s"
  from "1.prems" have pc: "pausesChecked (trace s)" by (simp add: scrolled_def)
  show ?case
  proof (cases "running s")
    case False
    have tr: "trace ?s1 = trace s @ [stoppedRead]"
      using False by (simp add: trace_perform stoppedRead_def)
    have "pausesChecked (trace ?s1)"
      using pc by (simp add: trace_perform pausesChecked_snoc)
    moreover have "nothingAfterStop (trace ?s1)"
    proof (cases "clean (trace s)")
      case True
      from nothingAfterStop_stopped [OF True, of "[]"] tr show ?thesis by simp
    next
      case dirty: False
      with "1.prems" obtain pre where "trace s = pre @ [stoppedRead]" and "clean pre"
        by (auto simp: scrolled_def)
      with nothingAfterStop_stopped [of pre "[stoppedRead]"] tr show ?thesis by simp
    qed
    ultimately show ?thesis using False by (simp add: unfold Let_def running_perform settled_def)
  next
    case True
    with "1.prems" have "paused s" by (auto simp: scrolled_def paused_def)
    from read_running [OF this True] have c1: "checked ?s1" .
    show ?thesis
    proof (cases "cycle h files ?s1")
      case (Stop out s2)
      from tripleD_Stop [OF cycle_checked c1 Stop] have "broke out s2" .
      from broke_settled [OF this] True Stop show ?thesis
        by (simp add: unfold Let_def running_perform)
    next
      case (Continue u s2)
      from tripleD_Continue [OF cycle_checked c1 Continue] have sc: "scrolled s2" .
      from True have n: "\<not> \<not> running ?s1" by (simp add: running_perform)
      from "1.IH" [OF refl n Continue sc] True Continue show ?thesis
        by (simp add: unfold Let_def running_perform)
    qed
  qed
qed

text \<open>
  Claim C7, amended. In a run of the loop every timed pause is immediately followed by a
  checkpoint that reads the flag, and once a checkpoint has found the flag clear the loop
  performs no further action of the current or of any later cycle (at most the enclosing
  \<open>while\<close> condition reads the flag once more) and ends. Nothing is said about actions
  between a host call and the next checkpoint.
\<close>

theorem runLoop_checkpoints:
  assumes "trace s = []"
  shows "pausesChecked (trace (snd (runLoop h files s)))
         \<and> nothingAfterStop (trace (snd (runLoop h files s)))
         \<and> (stoppedRead \<in> set (trace (snd (runLoop h files s))) \<longrightarrow> fst (runLoop h files s) = Halted)"
proof -
  from assms have "scrolled s"
    by (simp add: scrolled_def clean_def pausesChecked_def)
  from runLoop_settled [OF this] show ?thesis by (simp add: settled_def)
qed

text \<open>
  Claim C7, as stated, adds that the loop never performs a step action while the flag is
  clear. It fails when the stop command runs while the loop awaits the opening of the
  first file: the document is then shown, its lines are selected and the pause of 2000 ms
  is taken with the flag clear, before the next checkpoint ends the loop.
\<close>

lemmas run_defs = runLoop.simps cycle_def step1_def step2_def step3_def step4_def step5_def step6_def
  andThen_def chooseFile_def getRandomFile_def
  available_def arrayAt_def breakUnlessRunning_def perform_def openFile_def await_def
  selectLines_def selectRandomLines_def Let_def mkPosition_def lineAt_def mkRange_def
  isBefore_def getText_def validatePosition_def act_def deselectLines_def
  scrollUpAndDown_def scrollLoop.simps advance_def

theorem runLoop_acts_while_stopped_counterexample:
  "(False, SelectRandomLines
      \<lparr>document = \<lparr>docLines = [''ab'', ''cde''], eol = [CHR 10]\<rparr>,
       selection = (\<lparr>line = 0, character = 0\<rparr>, \<lparr>line = 1, character = 3\<rparr>),
       revealed = Some (\<lparr>line = 0, character = 0\<rparr>, \<lparr>line = 1, character = 3\<rparr>)\<rparr>)
   \<in> set (trace (snd (runLoop
        \<lparr>editorOf = (\<lambda>_. \<lparr>document = \<lparr>docLines = [''ab'', ''cde''], eol = [CHR 10]\<rparr>,
             selection = (\<lparr>line = 0, character = 0\<rparr>, \<lparr>line = 0, character = 0\<rparr>),
             revealed = None\<rparr>),
          mathRandom = (\<lambda>_. 1 / 2)\<rparr>
        [\<lparr>scheme = ''file'', fsPath = ''/a.ts''\<rparr>]
        \<lparr>running = True, clock = 0, draws = 0,
          pending = [\<lparr>flagAfter = False, clockAfter = 5\<rparr>, \<lparr>flagAfter = False, clockAfter = 9\<rparr>,
                     \<lparr>flagAfter = False, clockAfter = 2009\<rparr>],
          trace = []\<rparr>)))"
  by (simp add: run_defs)

theorem runLoop_checkpoints_witness:
  "trace \<lparr>running = True, clock = 0, draws = 0,
          pending = [\<lparr>flagAfter = True, clockAfter = 5\<rparr>, \<lparr>flagAfter = True, clockAfter = 9\<rparr>,
                     \<lparr>flagAfter = False, clockAfter = 2009\<rparr>],
          trace = []\<rparr> = []
   \<and> runLoop
        \<lparr>editorOf = (\<lambda>_. \<lparr>document = \<lparr>docLines = [], eol = [CHR 10]\<rparr>,
             selection = (\<lparr>line = 0, character = 0\<rparr>, \<lparr>line = 0, character = 0\<rparr>),
             revealed = None\<rparr>),
          mathRandom = (\<lambda>_. 1 / 2)\<rparr>
        [\<lparr>scheme = ''file'', fsPath = ''/a.ts''\<rparr>]
        \<lparr>running = True, clock = 0, draws = 0,
          pending = [\<lparr>flagAfter = True, clockAfter = 5\<rparr>, \<lparr>flagAfter = True, clockAfter = 9\<rparr>,
                     \<lparr>flagAfter = False, clockAfter = 2009\<rparr>],
          trace = []\<rparr>
     = (Halted,
        \<lparr>running = False, clock = 2009, draws = 1, pending = [],
          trace = [(True, ReadIsRunning), (True, ReadIsRunning),
                   (True, OpenTextDocument \<lparr>scheme = ''file'', fsPath = ''/a.ts''\<rparr>),
                   (True, ShowTextDocument \<lparr>scheme = ''file'', fsPath = ''/a.ts''\<rparr>),
                   (True, SelectRandomLines
                      \<lparr>document = \<lparr>docLines = [], eol = [CHR 10]\<rparr>,
                       selection = (\<lparr>line = 0, character = 0\<rparr>, \<lparr>line = 0, character = 0\<rparr>),
                       revealed = None\<rparr>),
                   (True, Sleep 2000), (False, ReadIsRunning)]\<rparr>)"
  using runLoop_checkpoints
    [of "\<lparr>running = True, clock = 0, draws = 0,
          pending = [\<lparr>flagAfter = True, clockAfter = 5\<rparr>, \<lparr>flagAfter = True, clockAfter = 9\<rparr>,
                     \<lparr>flagAfter = False, clockAfter = 2009\<rparr>],
          trace = []\<rparr>"
        "\<lparr>editorOf = (\<lambda>_. \<lparr>document = \<lparr>docLines = [], eol = [CHR 10]\<rparr>,
             selection = (\<lparr>line = 0, character = 0\<rparr>, \<lparr>line = 0, character = 0\<rparr>),
             revealed = None\<rparr>),
          mathRandom = (\<lambda>_. 1 / 2)\<rparr>"
        "[\<lparr>scheme = ''file'', fsPath = ''/a.ts''\<rparr>]"]
  by (simp add: run_defs)


end
